theory Spec2Isabelle
  imports Complex_Main
begin

section \<open>Orders and trades (order.hpp)\<close>

datatype OrderType = BUY | SELL

datatype OrderStatus = PENDING | PARTIALLY_FILLED | FILLED | CANCELLED | REJECTED

text \<open>
  \<^verbatim>\<open>class Order\<close>. Prices are \<^verbatim>\<open>double\<close> in the source and are only ever compared and
  copied, never computed with; they are modelled as reals (the order of finite doubles).
  Quantities are \<^verbatim>\<open>int\<close>. The arithmetic on one order (\<open>quantity - filledQuantity\<close>,
  \<open>filledQuantity + qty\<close> with \<open>qty\<close> at most the remaining quantity) stays between 0 and
  the order's quantity and is written on mathematical integers. The one sum over
  several orders, the size of the best level in update_market_data, can leave the range
  of the machine type and is reduced to 32 bits there (\<open>wrap32\<close> below). The wall-clock \<^verbatim>\<open>timestamp\<close> field is never read by the engine
  and is left out. The field \<^verbatim>\<open>type\<close> is called \<open>otype\<close>.
\<close>

record Order =
  orderId :: string
  otype :: OrderType
  price :: real
  quantity :: int
  filledQuantity :: int
  status :: OrderStatus
  symbol :: string
  clientId :: string

text \<open>\<^verbatim>\<open>struct Trade\<close> (its fields carry the prefix \<open>trade_\<close> where the name is also a field of Order).\<close>

record Trade =
  tradeId :: string
  buyOrderId :: string
  sellOrderId :: string
  trade_symbol :: string
  trade_price :: real
  trade_quantity :: int

text \<open>The constructor \<^verbatim>\<open>Order(id, t, p, q, sym, client)\<close>: nothing filled, status PENDING.\<close>

definition new_Order :: "string \<Rightarrow> OrderType \<Rightarrow> real \<Rightarrow> int \<Rightarrow> string \<Rightarrow> string \<Rightarrow> Order" where
  "new_Order oid t p q sy client =
     \<lparr>orderId = oid, otype = t, price = p, quantity = q, filledQuantity = 0,
      status = PENDING, symbol = sy, clientId = client\<rparr>"

definition isFullyFilled :: "Order \<Rightarrow> bool" where
  "isFullyFilled ord = (filledQuantity ord \<ge> quantity ord)"

definition getRemainingQuantity :: "Order \<Rightarrow> int" where
  "getRemainingQuantity ord = quantity ord - filledQuantity ord"

definition fill :: "Order \<Rightarrow> int \<Rightarrow> Order" where
  "fill ord qty =
     (let o1 = ord\<lparr>filledQuantity := filledQuantity ord + qty\<rparr>
      in if isFullyFilled o1 then o1\<lparr>status := FILLED\<rparr>
         else if filledQuantity o1 > 0 then o1\<lparr>status := PARTIALLY_FILLED\<rparr>
         else o1)"

definition cancel :: "Order \<Rightarrow> Order" where
  "cancel ord = ord\<lparr>status := CANCELLED\<rparr>"

section \<open>Printing integers (\<^verbatim>\<open>oss << n\<close>)\<close>

definition digit_char :: "nat \<Rightarrow> char" where
  "digit_char d = ''0123456789'' ! d"

function digits :: "nat \<Rightarrow> string" where
  "digits n = (if n < 10 then [digit_char n] else digits (n div 10) @ [digit_char (n mod 10)])"
  by pat_completeness auto
termination
  by (relation "measure id") auto

definition string_of_int :: "int \<Rightarrow> string" where
  "string_of_int i = (if i < 0 then CHR ''-'' # digits (nat (- i)) else digits (nat i))"

section \<open>The engine state\<close>

text \<open>
  The book holds \<^verbatim>\<open>std::shared_ptr<Order>\<close> in three places (the two price ladders and
  \<^verbatim>\<open>orderMap\<close>), and \<^verbatim>\<open>fill\<close>/\<^verbatim>\<open>cancel\<close> mutate the shared object. The model therefore has
  an explicit store: \<open>heap\<close> maps an address to the Order object living there, the
  containers hold addresses, and \<^verbatim>\<open>std::make_shared\<close> takes the next unused address
  \<open>nextAddr\<close>.

  A \<^verbatim>\<open>std::map<double, std::vector<...>>\<close> is an association list kept in the order of
  the map's comparator (\<^verbatim>\<open>std::greater\<close> for buyOrders: highest price first;
  \<^verbatim>\<open>std::less\<close> for sellOrders: lowest price first), so \<^verbatim>\<open>begin()\<close> is the head.

  \<open>trades\<close> is the output of the engine: the Trade records passed to \<^verbatim>\<open>onTrade\<close> and
  printed, in the order of emission. \<open>gen\<close> and \<open>genPos\<close> stand for the static random
  generator of \<^verbatim>\<open>generate_trade_id\<close>: \<open>gen k\<close> is the raw value of the k-th draw.
  OrderBook and MatchingEngine (one book and \<^verbatim>\<open>orderCounter\<close>) are one record.
\<close>

type_synonym addr = nat
type_synonym levels = "(real \<times> addr list) list"

record Engine =
  heap :: "addr \<Rightarrow> Order"
  nextAddr :: addr
  buyOrders :: levels
  sellOrders :: levels
  orderMap :: "string \<rightharpoonup> addr"
  bestBid :: real
  bestAsk :: real
  bidSize :: int
  askSize :: int
  orderCounter :: int
  trades :: "Trade list"
  gen :: "nat \<Rightarrow> nat"
  genPos :: nat

text \<open>
  A new MatchingEngine: empty book, projections 0, counter 0. No address is in use yet;
  \<open>empty_heap\<close> gives the unused cells a fixed content that nothing reads.
\<close>

definition empty_heap :: "addr \<Rightarrow> Order" where
  "empty_heap = (\<lambda>_. new_Order [] BUY 0 0 [] [])"

definition init :: "(nat \<Rightarrow> nat) \<Rightarrow> Engine" where
  "init g =
     \<lparr>heap = empty_heap, nextAddr = 0,
      buyOrders = [], sellOrders = [], orderMap = Map.empty,
      bestBid = 0, bestAsk = 0, bidSize = 0, askSize = 0,
      orderCounter = 0, trades = [], gen = g, genPos = 0\<rparr>"

definition alloc :: "Engine \<Rightarrow> Order \<Rightarrow> addr \<times> Engine" where
  "alloc s ord = (nextAddr s, s\<lparr>heap := (heap s)(nextAddr s := ord), nextAddr := Suc (nextAddr s)\<rparr>)"

subsection \<open>Operations on a price ladder\<close>

text \<open>\<^verbatim>\<open>m.erase(it)\<close> for the node with key p.\<close>

definition erase_level :: "real \<Rightarrow> levels \<Rightarrow> levels" where
  "erase_level p ls = filter (\<lambda>kv. fst kv \<noteq> p) ls"

text \<open>Assignment to the vector of the node with key p.\<close>

fun set_level :: "real \<Rightarrow> addr list \<Rightarrow> levels \<Rightarrow> levels" where
  "set_level p v [] = []"
| "set_level p v (kv # ls) = (if fst kv = p then (p, v) # ls else kv # set_level p v ls)"

text \<open>
  \<^verbatim>\<open>m[p].push_back(a)\<close>. The list is walked in the order of the keys: the level
  with key p gets a at its tail; when the walk reaches a key that comes after p (or the
  end) first, there is no such level and a new one is created at this place.
\<close>

fun push_level :: "(real \<Rightarrow> real \<Rightarrow> bool) \<Rightarrow> real \<Rightarrow> addr \<Rightarrow> levels \<Rightarrow> levels" where
  "push_level before p a [] = [(p, [a])]"
| "push_level before p a (kv # ls) =
     (if fst kv = p then (p, snd kv @ [a]) # ls
      else if before p (fst kv) then (p, [a]) # kv # ls
      else kv # push_level before p a ls)"

section \<open>OrderBook (orderBook.cpp)\<close>

text \<open>
  \<^verbatim>\<open>bidSize\<close> and \<^verbatim>\<open>askSize\<close> are 32-bit \<^verbatim>\<open>int\<close> accumulators: update_market_data sets them
  to 0 and runs \<^verbatim>\<open>bidSize += order->getRemainingQuantity()\<close> over the best level, front to
  back. Each addition is taken modulo \<open>2 ^ 32\<close> into the signed range, which is what the
  compiled addition yields when the sum leaves the range: two resting orders of
  2147483647 give the size -2.
\<close>

definition wrap32 :: "int \<Rightarrow> int" where
  "wrap32 x = (x + 2147483648) mod 4294967296 - 2147483648"

definition level_size :: "(addr \<Rightarrow> Order) \<Rightarrow> addr list \<Rightarrow> int" where
  "level_size h v = foldl (\<lambda>acc a. wrap32 (acc + getRemainingQuantity (h a))) 0 v"

definition update_market_data :: "Engine \<Rightarrow> Engine" where
  "update_market_data s =
     (let s1 = s\<lparr>bestBid := 0, bestAsk := 0, bidSize := 0, askSize := 0\<rparr>;
          s2 = (case buyOrders s1 of [] \<Rightarrow> s1
                | kv # _ \<Rightarrow> s1\<lparr>bestBid := fst kv, bidSize := level_size (heap s1) (snd kv)\<rparr>)
      in (case sellOrders s2 of [] \<Rightarrow> s2
          | kv # _ \<Rightarrow> s2\<lparr>bestAsk := fst kv, askSize := level_size (heap s2) (snd kv)\<rparr>))"

definition add_order :: "Engine \<Rightarrow> addr \<Rightarrow> Engine" where
  "add_order s a =
     (if quantity (heap s a) \<le> 0 then s
      else
        let s1 = s\<lparr>orderMap := (orderMap s)(orderId (heap s a) \<mapsto> a)\<rparr>;
            s2 = (if otype (heap s1 a) = BUY
                  then s1\<lparr>buyOrders := push_level (>) (price (heap s1 a)) a (buyOrders s1)\<rparr>
                  else s1\<lparr>sellOrders := push_level (<) (price (heap s1 a)) a (sellOrders s1)\<rparr>)
        in update_market_data s2)"

text \<open>
  The work of remove_order on one ladder: find the level of the order's price, drop every
  entry with this id from its vector (\<^verbatim>\<open>erase(remove_if(...))\<close>), erase the level when the
  vector is then empty.
\<close>

definition remove_from_levels :: "(addr \<Rightarrow> Order) \<Rightarrow> string \<Rightarrow> real \<Rightarrow> levels \<Rightarrow> levels" where
  "remove_from_levels h oid p ls =
     (case map_of ls p of
        None \<Rightarrow> ls
      | Some orders \<Rightarrow>
          let orders' = filter (\<lambda>a. orderId (h a) \<noteq> oid) orders
          in if orders' = [] then erase_level p ls else set_level p orders' ls)"

definition remove_order :: "Engine \<Rightarrow> string \<Rightarrow> bool \<times> Engine" where
  "remove_order s oid =
     (case orderMap s oid of
        None \<Rightarrow> (False, s)
      | Some a \<Rightarrow>
          let s1 = s\<lparr>orderMap := (orderMap s)(oid := None)\<rparr>;
              s2 = (if otype (heap s1 a) = BUY
                    then s1\<lparr>buyOrders := remove_from_levels (heap s1) oid (price (heap s1 a)) (buyOrders s1)\<rparr>
                    else s1\<lparr>sellOrders := remove_from_levels (heap s1) oid (price (heap s1 a)) (sellOrders s1)\<rparr>)
          in (True, update_market_data s2))"

definition cancel_order :: "Engine \<Rightarrow> string \<Rightarrow> bool \<times> Engine" where
  "cancel_order s oid =
     (case orderMap s oid of
        None \<Rightarrow> (False, s)
      | Some a \<Rightarrow> remove_order (s\<lparr>heap := (heap s)(a := cancel (heap s a))\<rparr>) oid)"

definition get_order :: "Engine \<Rightarrow> string \<Rightarrow> addr option" where
  "get_order s oid = orderMap s oid"

text \<open>
  generate_trade_id draws from \<^verbatim>\<open>std::uniform_int_distribution<>(100000, 999999)\<close> over a
  Mersenne twister seeded from \<^verbatim>\<open>std::random_device\<close>. The raw draws are the parameter
  \<open>gen\<close>; \<open>dis\<close> keeps what the distribution guarantees, a value in the closed range.
\<close>

definition dis :: "nat \<Rightarrow> int" where
  "dis raw = 100000 + int (raw mod 900000)"

definition generate_trade_id :: "Engine \<Rightarrow> string \<times> Engine" where
  "generate_trade_id s =
     (''T'' @ string_of_int (dis (gen s (genPos s))), s\<lparr>genPos := Suc (genPos s)\<rparr>)"

definition fill_at :: "Engine \<Rightarrow> addr \<Rightarrow> int \<Rightarrow> Engine" where
  "fill_at s a qty = s\<lparr>heap := (heap s)(a := fill (heap s a) qty)\<rparr>"

definition execute_trade :: "Engine \<Rightarrow> addr \<Rightarrow> addr \<Rightarrow> int \<Rightarrow> Engine" where
  "execute_trade s buyOrder sellOrder qty =
     (let (tid, s0) = generate_trade_id s;
          trade = \<lparr>tradeId = tid, buyOrderId = orderId (heap s0 buyOrder),
                   sellOrderId = orderId (heap s0 sellOrder),
                   trade_symbol = symbol (heap s0 buyOrder),
                   trade_price = price (heap s0 sellOrder), trade_quantity = qty\<rparr>;
          s1 = fill_at s0 buyOrder qty;
          s2 = fill_at s1 sellOrder qty;
          s3 = (if isFullyFilled (heap s2 buyOrder)
                then snd (remove_order s2 (orderId (heap s2 buyOrder))) else s2);
          s4 = (if isFullyFilled (heap s3 sellOrder)
                then snd (remove_order s3 (orderId (heap s3 sellOrder))) else s3)
      in s4\<lparr>trades := trades s4 @ [trade]\<rparr>)"

section \<open>MatchingEngine (matchingEngine.cpp)\<close>

definition generate_order_id :: "Engine \<Rightarrow> string \<times> Engine" where
  "generate_order_id s =
     (''O'' @ string_of_int (orderCounter s + 1), s\<lparr>orderCounter := orderCounter s + 1\<rparr>)"

text \<open>
  match_order has one \<^verbatim>\<open>while\<close> loop for a BUY order (over sellOrders) and one for a SELL
  order (over buyOrders); they differ in the ladder they consume, in the comparison of
  the \<^verbatim>\<open>break\<close>, and in the argument order of execute_trade. \<open>opp_levels\<close>,
  \<open>set_opp_levels\<close> and \<open>no_match\<close> select these by the type of the incoming order.
\<close>

definition opp_levels :: "OrderType \<Rightarrow> Engine \<Rightarrow> levels" where
  "opp_levels ty s = (if ty = BUY then sellOrders s else buyOrders s)"

definition set_opp_levels :: "OrderType \<Rightarrow> levels \<Rightarrow> Engine \<Rightarrow> Engine" where
  "set_opp_levels ty ls s = (if ty = BUY then s\<lparr>sellOrders := ls\<rparr> else s\<lparr>buyOrders := ls\<rparr>)"

definition no_match :: "OrderType \<Rightarrow> real \<Rightarrow> real \<Rightarrow> bool" where
  "no_match ty best p = (if ty = BUY then best > p else best < p)"

text \<open>
  In the loop body, \<^verbatim>\<open>ordersAtPrice\<close> is a reference to the vector inside the map node of
  the best level and \<^verbatim>\<open>sellOrder\<close> (\<^verbatim>\<open>buyOrder\<close>) is a reference to the front slot of that
  vector (\<^verbatim>\<open>auto &\<close>), not a copy of the pointer. execute_trade calls remove_order on a
  fully filled order, which takes it out of the vector and erases the map node when the
  vector becomes empty. After execute_trade returns:
  \<^item> if the node is gone, both references dangle and the next statement reads a
    destroyed vector: the behaviour is undefined, the model returns
    \<open>Inl DanglingReference\<close>;
  \<^item> otherwise the reference denotes the front slot, which now holds whatever order is
    first in the vector; it is this order that \<^verbatim>\<open>isFullyFilled\<close> tests.
\<close>

datatype error = DanglingReference

datatype step = Done "error + Engine" | Again Engine

definition match_step :: "OrderType \<Rightarrow> Engine \<Rightarrow> addr \<Rightarrow> step" where
  "match_step ty s t =
     (if getRemainingQuantity (heap s t) > 0 \<and> opp_levels ty s \<noteq> [] then
        let p0 = fst (hd (opp_levels ty s));
            ordersAtPrice = snd (hd (opp_levels ty s))
        in if no_match ty p0 (price (heap s t)) then Done (Inr s)
           else if ordersAtPrice = []
             then Again (set_opp_levels ty (erase_level p0 (opp_levels ty s)) s)
           else
             let m = hd ordersAtPrice;
                 tradeQuantity = min (getRemainingQuantity (heap s t))
                                     (getRemainingQuantity (heap s m));
                 s1 = (if ty = BUY then execute_trade s t m tradeQuantity
                       else execute_trade s m t tradeQuantity)
             in (case map_of (opp_levels ty s1) p0 of
                   None \<Rightarrow> Done (Inl DanglingReference)
                 | Some [] \<Rightarrow> Done (Inl DanglingReference)
                 | Some (front # rest) \<Rightarrow>
                     if isFullyFilled (heap s1 front)
                     then Again (set_opp_levels ty
                                   (if rest = [] then erase_level p0 (opp_levels ty s1)
                                    else set_level p0 rest (opp_levels ty s1)) s1)
                     else Again s1)
      else Done (Inr s))"


text \<open>
  The \<^verbatim>\<open>while\<close> loop of match_order runs the body until it breaks or its condition fails.
  Its termination rests on a size of the ladder being consumed (levels plus entries) and
  is proved below, for every state.
\<close>

definition size_levels :: "levels \<Rightarrow> nat" where
  "size_levels ls = sum_list (map (\<lambda>kv. Suc (length (snd kv))) ls)"

definition shrinks :: "levels \<Rightarrow> levels \<Rightarrow> bool" where
  "shrinks ls' ls = (ls' = ls \<or> size_levels ls' < size_levels ls)"

function match_loop :: "OrderType \<Rightarrow> Engine \<Rightarrow> addr \<Rightarrow> error + Engine" where
  "match_loop ty s t =
     (case match_step ty s t of Done r \<Rightarrow> r | Again s' \<Rightarrow> match_loop ty s' t)"
  by pat_completeness auto

text \<open>
  match_order: the guard on the quantity, the loop for the order's side, then the
  residual is added to the book. (The null test of the pointer has no counterpart: every
  address denotes an object.)
\<close>

definition match_order :: "Engine \<Rightarrow> addr \<Rightarrow> error + Engine" where
  "match_order s t =
     (if quantity (heap s t) \<le> 0 then Inr s
      else (case match_loop (otype (heap s t)) s t of
              Inl e \<Rightarrow> Inl e
            | Inr s1 \<Rightarrow> Inr (if getRemainingQuantity (heap s1 t) > 0 then add_order s1 t else s1)))"

text \<open>submit_order returns the new order id, or the empty string for an invalid order.\<close>

definition submit_order ::
  "Engine \<Rightarrow> OrderType \<Rightarrow> real \<Rightarrow> int \<Rightarrow> string \<Rightarrow> string \<Rightarrow> error + (string \<times> Engine)" where
  "submit_order s ty p q sy client =
     (if q \<le> 0 \<or> p \<le> 0 then Inr ([], s)
      else
        let (oid, s1) = generate_order_id s;
            (a, s2) = alloc s1 (new_Order oid ty p q sy client)
        in (case match_order s2 a of
              Inl e \<Rightarrow> Inl e
            | Inr s3 \<Rightarrow> Inr (oid, s3)))"

definition modify_order :: "Engine \<Rightarrow> string \<Rightarrow> real \<Rightarrow> int \<Rightarrow> error + (bool \<times> Engine)" where
  "modify_order s oid newPrice newQuantity =
     (case get_order s oid of
        None \<Rightarrow> Inr (False, s)
      | Some a \<Rightarrow>
          if status (heap s a) \<noteq> PENDING then Inr (False, s)
          else
            let s1 = snd (cancel_order s oid);
                (a', s2) = alloc s1 (new_Order oid (otype (heap s1 a)) newPrice newQuantity
                                       (symbol (heap s1 a)) (clientId (heap s1 a)))
            in (case match_order s2 a' of
                  Inl e \<Rightarrow> Inl e
                | Inr s3 \<Rightarrow> Inr (True, s3)))"

section \<open>Where a matching run stops\<close>

text \<open>
  A run of the loop of match_order stops in one of two ways. Either the loop is left (its
  condition fails or the \<^verbatim>\<open>break\<close> is taken), or a turn reads \<^verbatim>\<open>sellOrder->isFullyFilled()\<close>
  (\<^verbatim>\<open>buyOrder\<close> for a SELL) through a reference whose target the call of execute_trade in
  that same turn has destroyed. In the second case all the effects of the run have taken
  place when it stops: the trades are in the output and the fills are in the orders, the
  last of them made by that call of execute_trade; nothing is written between the call
  and the read.

  \<open>trade_turn\<close> is the state right after the call of execute_trade in a turn that trades
  (the front order of the best opposite level, the smaller of the two remaining
  quantities); \<open>match_halt\<close> is the state of the engine at the point where the run of the
  loop stops, whichever way it stops.
\<close>

definition trade_turn :: "OrderType \<Rightarrow> Engine \<Rightarrow> addr \<Rightarrow> Engine" where
  "trade_turn ty s t =
     (let ordersAtPrice = snd (hd (opp_levels ty s));
          m = hd ordersAtPrice;
          tradeQuantity = min (getRemainingQuantity (heap s t)) (getRemainingQuantity (heap s m))
      in if ty = BUY then execute_trade s t m tradeQuantity
         else execute_trade s m t tradeQuantity)"

function match_halt :: "OrderType \<Rightarrow> Engine \<Rightarrow> addr \<Rightarrow> Engine" where
  "match_halt ty s t =
     (case match_step ty s t of
        Done r \<Rightarrow> (case r of Inr s' \<Rightarrow> s' | Inl e \<Rightarrow> trade_turn ty s t)
      | Again s' \<Rightarrow> match_halt ty s' t)"
  by pat_completeness auto

text \<open>
  The same for match_order and submit_order: the state in which the matching run of the
  call stops. Where the loop is left, match_order goes on to add_order for the residual,
  which emits no trade and fills no order.
\<close>

definition match_order_halt :: "Engine \<Rightarrow> addr \<Rightarrow> Engine" where
  "match_order_halt s t =
     (if quantity (heap s t) \<le> 0 then s else match_halt (otype (heap s t)) s t)"

definition submit_halt ::
  "Engine \<Rightarrow> OrderType \<Rightarrow> real \<Rightarrow> int \<Rightarrow> string \<Rightarrow> string \<Rightarrow> Engine" where
  "submit_halt s ty p q sy client =
     (if q \<le> 0 \<or> p \<le> 0 then s
      else
        let (oid, s1) = generate_order_id s;
            (a, s2) = alloc s1 (new_Order oid ty p q sy client)
        in match_order_halt s2 a)"

section \<open>Sessions\<close>

text \<open>
  A session is a sequence of requests served one after the other by one engine (the
  server's callbacks call submit_order and cancel_order; modify_order is the third
  public mutator). A request whose run has no defined behaviour ends the session.
\<close>

datatype request =
    Submit OrderType real int string string
  | Cancel string
  | Modify string real int

fun serve :: "Engine \<Rightarrow> request \<Rightarrow> error + Engine" where
  "serve s (Submit ty p q sy client) = map_sum id snd (submit_order s ty p q sy client)"
| "serve s (Cancel oid) = Inr (snd (cancel_order s oid))"
| "serve s (Modify oid p q) = map_sum id snd (modify_order s oid p q)"

fun session :: "Engine \<Rightarrow> request list \<Rightarrow> error + Engine" where
  "session s [] = Inr s"
| "session s (r # rs) = (case serve s r of Inl e \<Rightarrow> Inl e | Inr s' \<Rightarrow> session s' rs)"

definition reachable :: "Engine \<Rightarrow> bool" where
  "reachable s = (\<exists>g rs. session (init g) rs = Inr s)"

section \<open>Invariants of the book\<close>

text \<open>
  The addresses held in a ladder, and the relation between a ladder and what remains of
  it after entries or whole levels have been taken out: no new price, no new address,
  and the order of the keys is kept.
\<close>

definition ladder_addrs :: "levels \<Rightarrow> addr set" where
  "ladder_addrs ls = (\<Union>kv\<in>set ls. set (snd kv))"

definition sub_ladder :: "levels \<Rightarrow> levels \<Rightarrow> bool" where
  "sub_ladder ls' ls =
     (set (map fst ls') \<subseteq> set (map fst ls) \<and> ladder_addrs ls' \<subseteq> ladder_addrs ls
      \<and> (sorted_wrt (<) (map fst ls) \<longrightarrow> sorted_wrt (<) (map fst ls'))
      \<and> (sorted_wrt (>) (map fst ls) \<longrightarrow> sorted_wrt (>) (map fst ls')))"

text \<open>
  A std::map keeps its keys in the order of its comparator; \<open>book_ordered\<close> says so of
  the two association lists (push_level relies on it to find an existing level before
  the place of a new one). \<open>uncrossed\<close>: every bid price is below every ask price.
\<close>

definition book_ordered :: "Engine \<Rightarrow> bool" where
  "book_ordered s =
     (sorted_wrt (>) (map fst (buyOrders s)) \<and> sorted_wrt (<) (map fst (sellOrders s)))"

definition uncrossed :: "Engine \<Rightarrow> bool" where
  "uncrossed s = (\<forall>b\<in>set (map fst (buyOrders s)). \<forall>a\<in>set (map fst (sellOrders s)). b < a)"

definition no_cross :: "Engine \<Rightarrow> bool" where
  "no_cross s = (book_ordered s \<and> uncrossed s)"

text \<open>The fields of an Order that nothing writes after the constructor.\<close>

definition static :: "Order \<Rightarrow> string \<times> OrderType \<times> real \<times> int \<times> string \<times> string" where
  "static ord = (orderId ord, otype ord, price ord, quantity ord, symbol ord, clientId ord)"

text \<open>
  Every address in a ladder is an allocated one. \<open>filled_below n\<close> is the total filled
  quantity of the objects at the addresses below n, \<open>traded\<close> the total quantity of a
  list of trades.
\<close>

definition book_closed :: "Engine \<Rightarrow> bool" where
  "book_closed s =
     (\<forall>a\<in>ladder_addrs (buyOrders s) \<union> ladder_addrs (sellOrders s). a < nextAddr s)"

definition filled_below :: "addr \<Rightarrow> Engine \<Rightarrow> int" where
  "filled_below n s = (\<Sum>a<n. filledQuantity (heap s a))"

definition traded :: "Trade list \<Rightarrow> int" where
  "traded ts = sum_list (map trade_quantity ts)"

text \<open>
  The form of the trade ids in the output, and a random generator whose raw draws are all
  the same.
\<close>

definition trade_ids_drawn :: "Engine \<Rightarrow> bool" where
  "trade_ids_drawn s =
     (\<forall>tr\<in>set (trades s). \<exists>n. 100000 \<le> n \<and> n \<le> 999999 \<and> tradeId tr = ''T'' @ digits n)"

definition constant_draws :: "nat \<Rightarrow> nat" where
  "constant_draws k = 7"





section \<open>Modify as cancel and reissue\<close>

text \<open>
  Modify in the words of the specification, cancel followed by a resubmission, with what
  modify_order keeps of a submit: the new order carries the same id, side, symbol and
  client and goes through match_order; it gets no new id from the counter and its price
  and quantity are not validated.
\<close>

definition reissue ::
  "Engine \<Rightarrow> string \<Rightarrow> OrderType \<Rightarrow> real \<Rightarrow> int \<Rightarrow> string \<Rightarrow> string \<Rightarrow> error + Engine" where
  "reissue s oid ty p q sy client =
     match_order (snd (alloc s (new_Order oid ty p q sy client))) (nextAddr s)"

definition cancel_then_reissue ::
  "Engine \<Rightarrow> string \<Rightarrow> real \<Rightarrow> int \<Rightarrow> error + (bool \<times> Engine)" where
  "cancel_then_reissue s oid p q =
     (case get_order s oid of
        None \<Rightarrow> Inr (False, s)
      | Some a \<Rightarrow>
          if fst (cancel_order s oid)
          then map_sum id (Pair True)
                 (reissue (snd (cancel_order s oid)) oid (otype (heap s a)) p q
                    (symbol (heap s a)) (clientId (heap s a)))
          else Inr (False, s))"

section \<open>Termination of the matching loop\<close>

lemma shrinks_refl [simp]: "shrinks ls ls"
  by (simp add: shrinks_def)

lemma shrinks_trans: "shrinks c b \<Longrightarrow> shrinks b a \<Longrightarrow> shrinks c a"
  by (auto simp: shrinks_def)

lemma erase_level_size_le: "size_levels (erase_level p ls) \<le> size_levels ls"
  by (induction ls) (auto simp: size_levels_def erase_level_def)

lemma erase_level_size: "p \<in> fst ` set ls \<Longrightarrow> size_levels (erase_level p ls) < size_levels ls"
proof (induction ls)
  case Nil
  then show ?case by simp
next
  case (Cons kv ls)
  have le: "size_levels (erase_level p ls) \<le> size_levels ls"
    by (rule erase_level_size_le)
  show ?case
  proof (cases "fst kv = p")
    case True
    with le show ?thesis by (simp add: size_levels_def erase_level_def)
  next
    case False
    with Cons show ?thesis by (auto simp: size_levels_def erase_level_def)
  qed
qed

lemma map_of_in_keys: "map_of ls p = Some v \<Longrightarrow> p \<in> fst ` set ls"
  by (metis domI dom_map_of_conv_image_fst)

lemma set_level_size:
  "map_of ls p = Some v \<Longrightarrow> size_levels (set_level p v' ls) + length v = size_levels ls + length v'"
  by (induction ls) (auto simp: size_levels_def)

lemma set_level_same: "map_of ls p = Some v \<Longrightarrow> set_level p v ls = ls"
  by (induction ls) auto

lemma remove_from_levels_shrinks: "shrinks (remove_from_levels h oid p ls) ls"
proof (cases "map_of ls p")
  case None
  then show ?thesis by (simp add: remove_from_levels_def)
next
  case (Some v)
  let ?v' = "filter (\<lambda>a. orderId (h a) \<noteq> oid) v"
  show ?thesis
  proof (cases "?v' = []")
    case True
    with Some erase_level_size [OF map_of_in_keys [OF Some]] show ?thesis
      by (simp add: remove_from_levels_def shrinks_def)
  next
    case False
    show ?thesis
    proof (cases "?v' = v")
      case True
      with Some False show ?thesis
        by (simp add: remove_from_levels_def set_level_same)
    next
      case ne: False
      have "length ?v' \<le> length v" by simp
      moreover have "length ?v' \<noteq> length v"
        using ne by (metis filter_True length_filter_less nat_neq_iff)
      ultimately have "length ?v' < length v" by linarith
      with set_level_size [OF Some, of ?v'] have "size_levels (set_level p ?v' ls) < size_levels ls"
        by linarith
      with Some False show ?thesis
        by (simp add: remove_from_levels_def shrinks_def)
    qed
  qed
qed

lemma update_market_data_fields [simp]:
  "heap (update_market_data s) = heap s"
  "nextAddr (update_market_data s) = nextAddr s"
  "buyOrders (update_market_data s) = buyOrders s"
  "sellOrders (update_market_data s) = sellOrders s"
  "orderMap (update_market_data s) = orderMap s"
  "orderCounter (update_market_data s) = orderCounter s"
  "trades (update_market_data s) = trades s"
  "gen (update_market_data s) = gen s"
  "genPos (update_market_data s) = genPos s"
  by (simp_all add: update_market_data_def Let_def split: list.splits)

lemma remove_order_fields [simp]:
  "heap (snd (remove_order s oid)) = heap s"
  "nextAddr (snd (remove_order s oid)) = nextAddr s"
  "orderCounter (snd (remove_order s oid)) = orderCounter s"
  "trades (snd (remove_order s oid)) = trades s"
  "gen (snd (remove_order s oid)) = gen s"
  "genPos (snd (remove_order s oid)) = genPos s"
  by (simp_all add: remove_order_def Let_def split: option.splits)

lemma remove_order_shrinks:
  "shrinks (buyOrders (snd (remove_order s oid))) (buyOrders s)"
  "shrinks (sellOrders (snd (remove_order s oid))) (sellOrders s)"
  by (simp_all add: remove_order_def Let_def remove_from_levels_shrinks split: option.splits)

lemma execute_trade_heap:
  "heap (execute_trade s b sl q) =
     (let h1 = (heap s)(b := fill (heap s b) q) in h1(sl := fill (h1 sl) q))"
  by (simp add: execute_trade_def generate_trade_id_def fill_at_def Let_def)

lemma execute_trade_shrinks:
  "shrinks (buyOrders (execute_trade s b sl q)) (buyOrders s)"
  "shrinks (sellOrders (execute_trade s b sl q)) (sellOrders s)"
proof -
  define s2 where "s2 = fill_at (fill_at (snd (generate_trade_id s)) b q) sl q"
  define s3 where "s3 = (if isFullyFilled (heap s2 b)
                then snd (remove_order s2 (orderId (heap s2 b))) else s2)"
  define s4 where "s4 = (if isFullyFilled (heap s3 sl)
                then snd (remove_order s3 (orderId (heap s3 sl))) else s3)"
  have e: "buyOrders (execute_trade s b sl q) = buyOrders s4"
     "sellOrders (execute_trade s b sl q) = sellOrders s4"
    by (simp_all add: execute_trade_def s4_def s3_def s2_def Let_def split_def)
  have b2: "buyOrders s2 = buyOrders s" "sellOrders s2 = sellOrders s"
    by (simp_all add: s2_def fill_at_def generate_trade_id_def)
  have b3: "shrinks (buyOrders s3) (buyOrders s2)" "shrinks (sellOrders s3) (sellOrders s2)"
    by (simp_all add: s3_def remove_order_shrinks)
  have b4: "shrinks (buyOrders s4) (buyOrders s3)" "shrinks (sellOrders s4) (sellOrders s3)"
    by (simp_all add: s4_def remove_order_shrinks)
  show "shrinks (buyOrders (execute_trade s b sl q)) (buyOrders s)"
    using shrinks_trans [OF b4(1) b3(1)] by (simp add: e b2)
  show "shrinks (sellOrders (execute_trade s b sl q)) (sellOrders s)"
    using shrinks_trans [OF b4(2) b3(2)] by (simp add: e b2)
qed


lemma isFullyFilled_iff: "isFullyFilled ord \<longleftrightarrow> getRemainingQuantity ord \<le> 0"
  by (simp add: isFullyFilled_def getRemainingQuantity_def)

lemma getRemainingQuantity_fill [simp]:
  "getRemainingQuantity (fill ord q) = getRemainingQuantity ord - q"
  by (simp add: fill_def getRemainingQuantity_def Let_def)

lemma opp_levels_set_opp_levels [simp]: "opp_levels ty (set_opp_levels ty ls s) = ls"
  by (simp add: opp_levels_def set_opp_levels_def)

lemma heap_set_opp_levels [simp]: "heap (set_opp_levels ty ls s) = heap s"
  by (simp add: set_opp_levels_def)

lemma execute_trade_opp_shrinks: "shrinks (opp_levels ty (execute_trade s b sl q)) (opp_levels ty s)"
  by (simp add: opp_levels_def execute_trade_shrinks)

lemma trade_exhausts_taker:
  assumes s1: "s1 = (if ty = BUY then execute_trade s t m q else execute_trade s m t q)"
    and q: "q = min (getRemainingQuantity (heap s t)) (getRemainingQuantity (heap s m))"
    and pos: "getRemainingQuantity (heap s t) > 0"
    and nf: "\<not> isFullyFilled (heap s1 m)"
  shows "getRemainingQuantity (heap s1 t) \<le> 0"
proof (cases "t = m")
  case True
  with s1 q pos nf show ?thesis
    by (auto simp: execute_trade_heap Let_def isFullyFilled_iff split: if_splits)
next
  case False
  with s1 q pos nf show ?thesis
    by (auto simp: execute_trade_heap Let_def isFullyFilled_iff split: if_splits)
qed

lemma match_step_Again:
  assumes "match_step ty s t = Again s'"
  shows "getRemainingQuantity (heap s t) > 0"
    and "size_levels (opp_levels ty s') < size_levels (opp_levels ty s)
         \<or> getRemainingQuantity (heap s' t) \<le> 0"
proof -
  show pos: "getRemainingQuantity (heap s t) > 0"
    using assms by (simp add: match_step_def split: if_splits)
  have ne: "opp_levels ty s \<noteq> []"
    using assms by (simp add: match_step_def split: if_splits)
  define p0 where "p0 = fst (hd (opp_levels ty s))"
  define v0 where "v0 = snd (hd (opp_levels ty s))"
  have hd0: "map_of (opp_levels ty s) p0 = Some v0"
    using ne by (cases "opp_levels ty s") (auto simp: p0_def v0_def)
  have key0: "p0 \<in> fst ` set (opp_levels ty s)"
    by (rule map_of_in_keys [OF hd0])
  show "size_levels (opp_levels ty s') < size_levels (opp_levels ty s)
         \<or> getRemainingQuantity (heap s' t) \<le> 0"
  proof (cases "v0 = []")
    case True
    with assms pos ne have "s' = set_opp_levels ty (erase_level p0 (opp_levels ty s)) s"
      by (simp add: match_step_def Let_def p0_def v0_def split: if_splits)
    with erase_level_size [OF key0] show ?thesis by simp
  next
    case False
    define m where "m = hd v0"
    define q where "q = min (getRemainingQuantity (heap s t)) (getRemainingQuantity (heap s m))"
    define s1 where "s1 = (if ty = BUY then execute_trade s t m q else execute_trade s m t q)"
    have sh: "shrinks (opp_levels ty s1) (opp_levels ty s)"
      by (simp add: s1_def execute_trade_opp_shrinks)
    from assms pos ne False obtain front rest where
      fr: "map_of (opp_levels ty s1) p0 = Some (front # rest)"
      and s': "s' = (if isFullyFilled (heap s1 front)
                     then set_opp_levels ty
                                   (if rest = [] then erase_level p0 (opp_levels ty s1)
                                    else set_level p0 rest (opp_levels ty s1)) s1
                     else s1)"
      by (auto simp: match_step_def Let_def p0_def v0_def m_def q_def s1_def
               split: if_splits option.splits list.splits)
    have le: "size_levels (opp_levels ty s1) \<le> size_levels (opp_levels ty s)"
      using sh by (auto simp: shrinks_def)
    show ?thesis
    proof (cases "isFullyFilled (heap s1 front)")
      case True
      have "size_levels (if rest = [] then erase_level p0 (opp_levels ty s1)
                                    else set_level p0 rest (opp_levels ty s1))
            < size_levels (opp_levels ty s1)"
        using erase_level_size [OF map_of_in_keys [OF fr]] set_level_size [OF fr, of rest]
        by auto
      with True s' le show ?thesis by simp
    next
      case nf: False
      show ?thesis
      proof (cases "opp_levels ty s1 = opp_levels ty s")
        case True
        with fr hd0 have "front = m" by (simp add: m_def)
        with nf trade_exhausts_taker [OF s1_def q_def pos] s' show ?thesis by simp
      next
        case False
        with sh s' nf show ?thesis by (simp add: shrinks_def)
      qed
    qed
  qed
qed

termination match_loop
proof (relation "measure (\<lambda>(ty, s, t).
         if getRemainingQuantity (heap s t) > 0 then Suc (size_levels (opp_levels ty s)) else 0)")
  show "wf (measure (\<lambda>(ty, s, t).
         if getRemainingQuantity (heap s t) > 0 then Suc (size_levels (opp_levels ty s)) else 0))"
    by simp
next
  fix ty s t s'
  assume "match_step ty s t = Again s'"
  from match_step_Again [OF this]
  show "((ty, s', t), (ty, s, t)) \<in> measure (\<lambda>(ty, s, t).
         if getRemainingQuantity (heap s t) > 0 then Suc (size_levels (opp_levels ty s)) else 0)"
    by auto
qed



termination match_halt
proof (relation "measure (\<lambda>(ty, s, t).
         if getRemainingQuantity (heap s t) > 0 then Suc (size_levels (opp_levels ty s)) else 0)")
  show "wf (measure (\<lambda>(ty, s, t).
         if getRemainingQuantity (heap s t) > 0 then Suc (size_levels (opp_levels ty s)) else 0))"
    by simp
next
  fix ty s t s'
  assume "match_step ty s t = Again s'"
  from match_step_Again [OF this]
  show "((ty, s', t), (ty, s, t)) \<in> measure (\<lambda>(ty, s, t).
         if getRemainingQuantity (heap s t) > 0 then Suc (size_levels (opp_levels ty s)) else 0)"
    by auto
qed

declare match_loop.simps [simp del]

declare match_halt.simps [simp del]

declare digits.simps [simp del]

declare session.simps [simp del]


section \<open>What the operations preserve\<close>

lemma sub_ladder_refl [simp]: "sub_ladder ls ls"
  by (simp add: sub_ladder_def)

lemma sub_ladder_trans: "sub_ladder c b \<Longrightarrow> sub_ladder b a \<Longrightarrow> sub_ladder c a"
  by (auto simp: sub_ladder_def)

lemma map_fst_set_level [simp]: "map fst (set_level p v ls) = map fst ls"
  by (induction ls) auto

lemma ladder_addrs_set_level: "ladder_addrs (set_level p v ls) \<subseteq> ladder_addrs ls \<union> set v"
  by (induction ls) (auto simp: ladder_addrs_def)

lemma map_fst_erase_level: "map fst (erase_level p ls) = filter (\<lambda>k. k \<noteq> p) (map fst ls)"
  by (induction ls) (auto simp: erase_level_def)

lemma ladder_addrs_erase_level: "ladder_addrs (erase_level p ls) \<subseteq> ladder_addrs ls"
  by (auto simp: ladder_addrs_def erase_level_def)

lemma sub_ladder_erase_level: "sub_ladder (erase_level p ls) ls"
  by (auto simp: sub_ladder_def map_fst_erase_level sorted_wrt_filter
        dest: subsetD [OF ladder_addrs_erase_level])

lemma map_of_ladder_addrs: "map_of ls p = Some v \<Longrightarrow> set v \<subseteq> ladder_addrs ls"
  by (auto simp: ladder_addrs_def dest!: map_of_SomeD)

lemma sub_ladder_set_level: "set v \<subseteq> ladder_addrs ls \<Longrightarrow> sub_ladder (set_level p v ls) ls"
  using ladder_addrs_set_level [of p v ls] by (auto simp: sub_ladder_def)

lemma sub_ladder_remove_from_levels: "sub_ladder (remove_from_levels h oid p ls) ls"
proof (cases "map_of ls p")
  case None
  then show ?thesis by (simp add: remove_from_levels_def)
next
  case (Some v)
  have "set (filter (\<lambda>a. orderId (h a) \<noteq> oid) v) \<subseteq> ladder_addrs ls"
    using map_of_ladder_addrs [OF Some] by auto
  with Some show ?thesis
    by (simp add: remove_from_levels_def Let_def sub_ladder_erase_level sub_ladder_set_level)
qed

lemma remove_order_sub_ladder:
  "sub_ladder (buyOrders (snd (remove_order s oid))) (buyOrders s)"
  "sub_ladder (sellOrders (snd (remove_order s oid))) (sellOrders s)"
  by (simp_all add: remove_order_def Let_def sub_ladder_remove_from_levels split: option.splits)

lemma execute_trade_sub_ladder:
  "sub_ladder (buyOrders (execute_trade s b sl q)) (buyOrders s)"
  "sub_ladder (sellOrders (execute_trade s b sl q)) (sellOrders s)"
proof -
  define s2 where "s2 = fill_at (fill_at (snd (generate_trade_id s)) b q) sl q"
  define s3 where "s3 = (if isFullyFilled (heap s2 b)
                then snd (remove_order s2 (orderId (heap s2 b))) else s2)"
  define s4 where "s4 = (if isFullyFilled (heap s3 sl)
                then snd (remove_order s3 (orderId (heap s3 sl))) else s3)"
  have e: "buyOrders (execute_trade s b sl q) = buyOrders s4"
     "sellOrders (execute_trade s b sl q) = sellOrders s4"
    by (simp_all add: execute_trade_def s4_def s3_def s2_def Let_def split_def)
  have b2: "buyOrders s2 = buyOrders s" "sellOrders s2 = sellOrders s"
    by (simp_all add: s2_def fill_at_def generate_trade_id_def)
  have b3: "sub_ladder (buyOrders s3) (buyOrders s2)" "sub_ladder (sellOrders s3) (sellOrders s2)"
    by (simp_all add: s3_def remove_order_sub_ladder)
  have b4: "sub_ladder (buyOrders s4) (buyOrders s3)" "sub_ladder (sellOrders s4) (sellOrders s3)"
    by (simp_all add: s4_def remove_order_sub_ladder)
  show "sub_ladder (buyOrders (execute_trade s b sl q)) (buyOrders s)"
    using sub_ladder_trans [OF b4(1) b3(1)] by (simp add: e b2)
  show "sub_ladder (sellOrders (execute_trade s b sl q)) (sellOrders s)"
    using sub_ladder_trans [OF b4(2) b3(2)] by (simp add: e b2)
qed

text \<open>The shape of one turn of the loop.\<close>

lemma match_step_cases:
  assumes "match_step ty s t = Again s'"
  obtains
    (empty_level) "s' = set_opp_levels ty (erase_level (fst (hd (opp_levels ty s))) (opp_levels ty s)) s"
  | (trade) m q s1 ls where
      "opp_levels ty s \<noteq> []"
      "snd (hd (opp_levels ty s)) \<noteq> []"
      "m = hd (snd (hd (opp_levels ty s)))"
      "q = min (getRemainingQuantity (heap s t)) (getRemainingQuantity (heap s m))"
      "s1 = (if ty = BUY then execute_trade s t m q else execute_trade s m t q)"
      "s' = s1 \<or> (s' = set_opp_levels ty ls s1 \<and> sub_ladder ls (opp_levels ty s1))"
proof -
  have ne: "opp_levels ty s \<noteq> []"
    using assms by (simp add: match_step_def split: if_splits)
  define p0 where "p0 = fst (hd (opp_levels ty s))"
  define v0 where "v0 = snd (hd (opp_levels ty s))"
  show thesis
  proof (cases "v0 = []")
    case True
    with assms have "s' = set_opp_levels ty (erase_level p0 (opp_levels ty s)) s"
      by (simp add: match_step_def Let_def p0_def v0_def split: if_splits)
    then show thesis using empty_level by (simp add: p0_def)
  next
    case False
    define m where "m = hd v0"
    define q where "q = min (getRemainingQuantity (heap s t)) (getRemainingQuantity (heap s m))"
    define s1 where "s1 = (if ty = BUY then execute_trade s t m q else execute_trade s m t q)"
    from assms ne False obtain front rest where
      fr: "map_of (opp_levels ty s1) p0 = Some (front # rest)"
      and s': "s' = (if isFullyFilled (heap s1 front)
                     then set_opp_levels ty
                                   (if rest = [] then erase_level p0 (opp_levels ty s1)
                                    else set_level p0 rest (opp_levels ty s1)) s1
                     else s1)"
      by (auto simp: match_step_def Let_def p0_def v0_def m_def q_def s1_def
               split: if_splits option.splits list.splits)
    have "set rest \<subseteq> ladder_addrs (opp_levels ty s1)"
      using map_of_ladder_addrs [OF fr] by auto
    then have "sub_ladder (if rest = [] then erase_level p0 (opp_levels ty s1)
                                    else set_level p0 rest (opp_levels ty s1)) (opp_levels ty s1)"
      by (simp add: sub_ladder_erase_level sub_ladder_set_level)
    with s' have "s' = s1 \<or> (s' = set_opp_levels ty (if rest = [] then erase_level p0 (opp_levels ty s1)
                                    else set_level p0 rest (opp_levels ty s1)) s1 \<and>
           sub_ladder (if rest = [] then erase_level p0 (opp_levels ty s1)
                                    else set_level p0 rest (opp_levels ty s1)) (opp_levels ty s1))"
      by (simp split: if_splits)
    with trade [OF ne _ m_def [unfolded v0_def] q_def s1_def] False show thesis
      by (auto simp: v0_def)
  qed
qed

lemma match_step_Done:
  assumes "match_step ty s t = Done (Inr s')"
  shows "s' = s"
    and "getRemainingQuantity (heap s t) \<le> 0 \<or> opp_levels ty s = []
         \<or> no_match ty (fst (hd (opp_levels ty s))) (price (heap s t))"
  using assms
  by (auto simp: match_step_def Let_def split: if_splits option.splits list.splits)

lemma match_loop_invariant:
  assumes "\<And>s s'. P s \<Longrightarrow> match_step ty s t = Again s' \<Longrightarrow> P s'"
    and "P s" and "match_loop ty s t = Inr s'"
  shows "P s'"
  using assms
proof (induction ty s t rule: match_loop.induct)
  case (1 ty s t)
  note step = "1.prems"(1)
  show ?case
  proof (cases "match_step ty s t")
    case (Done r)
    with "1.prems" have "r = Inr s'" by (simp add: match_loop.simps [of ty s t])
    with Done match_step_Done(1) [of ty s t s'] "1.prems" show ?thesis by simp
  next
    case (Again s1)
    with "1.prems" have run: "match_loop ty s1 t = Inr s'"
      by (simp add: match_loop.simps [of ty s t])
    have P1: "P s1" using step [OF "1.prems"(2) Again] .
    show ?thesis
    proof (rule "1.IH" [OF Again])
      show "\<And>s s'. P s \<Longrightarrow> match_step ty s t = Again s' \<Longrightarrow> P s'"
        by (rule step)
      show "P s1" by (rule P1)
      show "match_loop ty s1 t = Inr s'" by (rule run)
    qed
  qed
qed

lemma match_loop_exit:
  assumes "match_loop ty s t = Inr s'"
  shows "getRemainingQuantity (heap s' t) \<le> 0 \<or> opp_levels ty s' = []
         \<or> no_match ty (fst (hd (opp_levels ty s'))) (price (heap s' t))"
  using assms
proof (induction ty s t rule: match_loop.induct)
  case (1 ty s t)
  show ?case
  proof (cases "match_step ty s t")
    case (Done r)
    with "1.prems" have "r = Inr s'" by (simp add: match_loop.simps [of ty s t])
    with Done match_step_Done [of ty s t s'] show ?thesis by simp
  next
    case (Again s1)
    with "1.prems" have "match_loop ty s1 t = Inr s'" by (simp add: match_loop.simps [of ty s t])
    then show ?thesis using "1.IH" [OF Again] by blast
  qed
qed


subsection \<open>The book stays uncrossed\<close>

text \<open>
  The matching loop only takes entries and levels out of the ladders; add_order puts the
  residual in only after the loop has stopped at an empty opposite side or at a best
  opposite price that does not match.
\<close>

lemma static_fill [simp]: "static (fill ord q) = static ord"
  by (simp add: static_def fill_def Let_def)

lemma static_cancel [simp]: "static (cancel ord) = static ord"
  by (simp add: static_def cancel_def)

lemma static_fields:
  "static x = static y \<Longrightarrow> orderId x = orderId y \<and> otype x = otype y \<and> price x = price y
     \<and> quantity x = quantity y \<and> symbol x = symbol y \<and> clientId x = clientId y"
  by (simp add: static_def)

lemma execute_trade_static [simp]: "static (heap (execute_trade s b sl q) a) = static (heap s a)"
  by (simp add: execute_trade_heap Let_def)

lemma match_step_static:
  assumes "match_step ty s t = Again s'"
  shows "static (heap s' a) = static (heap s a)"
  using assms by (cases rule: match_step_cases) (auto split: if_splits)

lemma match_loop_static:
  assumes "match_loop ty s t = Inr s'"
  shows "static (heap s' a) = static (heap s a)"
proof (rule match_loop_invariant [where P = "\<lambda>x. static (heap x a) = static (heap s a)", OF _ _ assms])
  show "static (heap s a) = static (heap s a)" by simp
  show "\<And>x x'. static (heap x a) = static (heap s a) \<Longrightarrow> match_step ty x t = Again x'
        \<Longrightarrow> static (heap x' a) = static (heap s a)"
    by (simp add: match_step_static)
qed

lemma set_opp_levels_ladders:
  "buyOrders (set_opp_levels ty ls s) = (if ty = BUY then buyOrders s else ls)"
  "sellOrders (set_opp_levels ty ls s) = (if ty = BUY then ls else sellOrders s)"
  by (simp_all add: set_opp_levels_def)

lemma match_step_sub_ladder:
  assumes "match_step ty s t = Again s'"
  shows "sub_ladder (buyOrders s') (buyOrders s) \<and> sub_ladder (sellOrders s') (sellOrders s)"
  using assms
proof (cases rule: match_step_cases)
  case empty_level
  then show ?thesis
    by (simp add: set_opp_levels_ladders opp_levels_def sub_ladder_erase_level)
next
  case (trade m q s1 ls)
  have s1: "sub_ladder (buyOrders s1) (buyOrders s)" "sub_ladder (sellOrders s1) (sellOrders s)"
    using trade(5) by (simp_all add: execute_trade_sub_ladder)
  from trade(6) show ?thesis
  proof
    assume "s' = s1"
    with s1 show ?thesis by simp
  next
    assume a: "s' = set_opp_levels ty ls s1 \<and> sub_ladder ls (opp_levels ty s1)"
    show ?thesis
    proof (cases "ty = BUY")
      case True
      with a s1 sub_ladder_trans [of ls "sellOrders s1" "sellOrders s"] show ?thesis
        by (simp add: set_opp_levels_ladders opp_levels_def)
    next
      case False
      with a s1 sub_ladder_trans [of ls "buyOrders s1" "buyOrders s"] show ?thesis
        by (simp add: set_opp_levels_ladders opp_levels_def)
    qed
  qed
qed

lemma match_loop_sub_ladder:
  assumes "match_loop ty s t = Inr s'"
  shows "sub_ladder (buyOrders s') (buyOrders s) \<and> sub_ladder (sellOrders s') (sellOrders s)"
proof (rule match_loop_invariant
    [where P = "\<lambda>x. sub_ladder (buyOrders x) (buyOrders s) \<and> sub_ladder (sellOrders x) (sellOrders s)",
      OF _ _ assms])
  show "sub_ladder (buyOrders s) (buyOrders s) \<and> sub_ladder (sellOrders s) (sellOrders s)"
    by simp
  fix x x'
  assume "sub_ladder (buyOrders x) (buyOrders s) \<and> sub_ladder (sellOrders x) (sellOrders s)"
    and "match_step ty x t = Again x'"
  with match_step_sub_ladder [of ty x t x']
  show "sub_ladder (buyOrders x') (buyOrders s) \<and> sub_ladder (sellOrders x') (sellOrders s)"
    by (blast intro: sub_ladder_trans)
qed

lemma sub_ladder_no_cross:
  assumes "no_cross s" "sub_ladder (buyOrders s') (buyOrders s)"
    "sub_ladder (sellOrders s') (sellOrders s)"
  shows "no_cross s'"
  using assms unfolding no_cross_def book_ordered_def uncrossed_def sub_ladder_def
  by blast

lemma keys_push_level [simp]:
  "set (map fst (push_level before p a ls)) = insert p (set (map fst ls))"
  by (induction ls) auto

lemma sorted_push_level_less:
  "sorted_wrt (<) (map fst ls) \<Longrightarrow> sorted_wrt (<) (map fst (push_level (<) p a ls))"
proof (induction ls)
  case Nil
  then show ?case by simp
next
  case (Cons kv ls)
  then show ?case by (auto simp del: keys_push_level simp: keys_push_level [simplified])
qed

lemma sorted_push_level_greater:
  "sorted_wrt (>) (map fst ls) \<Longrightarrow> sorted_wrt (>) (map fst (push_level (>) p a ls))"
proof (induction ls)
  case Nil
  then show ?case by simp
next
  case (Cons kv ls)
  then show ?case by (auto simp del: keys_push_level simp: keys_push_level [simplified])
qed

lemma add_order_ladders:
  "buyOrders (add_order s a) =
     (if quantity (heap s a) > 0 \<and> otype (heap s a) = BUY
      then push_level (>) (price (heap s a)) a (buyOrders s) else buyOrders s)"
  "sellOrders (add_order s a) =
     (if quantity (heap s a) > 0 \<and> otype (heap s a) \<noteq> BUY
      then push_level (<) (price (heap s a)) a (sellOrders s) else sellOrders s)"
  by (simp_all add: add_order_def Let_def)

lemma sorted_less_hd: "sorted_wrt (<) (map fst ls) \<Longrightarrow> k \<in> set (map fst ls) \<Longrightarrow> fst (hd ls) \<le> (k::real)"
  by (cases ls) auto

lemma sorted_greater_hd: "sorted_wrt (>) (map fst ls) \<Longrightarrow> k \<in> set (map fst ls) \<Longrightarrow> (k::real) \<le> fst (hd ls)"
  by (cases ls) auto

lemma add_order_no_cross:
  assumes inv: "no_cross s"
    and ex: "opp_levels (otype (heap s t)) s = []
         \<or> no_match (otype (heap s t)) (fst (hd (opp_levels (otype (heap s t)) s))) (price (heap s t))"
  shows "no_cross (add_order s t)"
proof (cases "quantity (heap s t) > 0")
  case False
  with inv show ?thesis by (simp add: add_order_def)
next
  case pos: True
  show ?thesis
  proof (cases "otype (heap s t) = BUY")
    case True
    have "\<forall>a\<in>set (map fst (sellOrders s)). price (heap s t) < a"
    proof
      fix a assume a: "a \<in> set (map fst (sellOrders s))"
      then have "sellOrders s \<noteq> []" by auto
      with ex True have "price (heap s t) < fst (hd (sellOrders s))"
        by (simp add: opp_levels_def no_match_def)
      moreover have "fst (hd (sellOrders s)) \<le> a"
        using inv a by (simp add: no_cross_def book_ordered_def sorted_less_hd)
      ultimately show "price (heap s t) < a" by simp
    qed
    with inv True pos show ?thesis
      by (auto simp: no_cross_def book_ordered_def uncrossed_def add_order_ladders
            sorted_push_level_greater simp del: set_map)
  next
    case False
    have "\<forall>b\<in>set (map fst (buyOrders s)). b < price (heap s t)"
    proof
      fix b assume b: "b \<in> set (map fst (buyOrders s))"
      then have "buyOrders s \<noteq> []" by auto
      with ex False have "fst (hd (buyOrders s)) < price (heap s t)"
        by (simp add: opp_levels_def no_match_def)
      moreover have "b \<le> fst (hd (buyOrders s))"
        using inv b by (simp add: no_cross_def book_ordered_def sorted_greater_hd)
      ultimately show "b < price (heap s t)" by simp
    qed
    with inv False pos show ?thesis
      by (auto simp: no_cross_def book_ordered_def uncrossed_def add_order_ladders
            sorted_push_level_less simp del: set_map)
  qed
qed

lemma match_order_no_cross:
  assumes inv: "no_cross s" and run: "match_order s t = Inr s'"
  shows "no_cross s'"
proof (cases "quantity (heap s t) \<le> 0")
  case True
  with run inv show ?thesis by (simp add: match_order_def)
next
  case False
  with run obtain s1 where loop: "match_loop (otype (heap s t)) s t = Inr s1"
    and s': "s' = (if getRemainingQuantity (heap s1 t) > 0 then add_order s1 t else s1)"
    by (auto simp: match_order_def split: sum.splits)
  have inv1: "no_cross s1"
    using sub_ladder_no_cross [OF inv] match_loop_sub_ladder [OF loop] by blast
  show ?thesis
  proof (cases "getRemainingQuantity (heap s1 t) > 0")
    case False
    with s' inv1 show ?thesis by simp
  next
    case True
    have ty: "otype (heap s1 t) = otype (heap s t)"
      using static_fields [OF match_loop_static [OF loop, of t]] by simp
    from match_loop_exit [OF loop] True
    have "opp_levels (otype (heap s1 t)) s1 = []
         \<or> no_match (otype (heap s1 t)) (fst (hd (opp_levels (otype (heap s1 t)) s1))) (price (heap s1 t))"
      by (simp add: ty)
    from add_order_no_cross [OF inv1 this] s' True show ?thesis by simp
  qed
qed

lemma alloc_ladders [simp]:
  "buyOrders (snd (alloc s ord)) = buyOrders s" "sellOrders (snd (alloc s ord)) = sellOrders s"
  by (simp_all add: alloc_def)

lemma no_cross_cong: "buyOrders s' = buyOrders s \<Longrightarrow> sellOrders s' = sellOrders s
    \<Longrightarrow> no_cross s' = no_cross s"
  by (simp add: no_cross_def book_ordered_def uncrossed_def)

lemma submit_order_no_cross:
  assumes "no_cross s" "submit_order s ty p q sy client = Inr (oid, s')"
  shows "no_cross s'"
proof (cases "q \<le> 0 \<or> p \<le> 0")
  case True
  with assms show ?thesis by (simp add: submit_order_def)
next
  case False
  define s2 where "s2 = snd (alloc (snd (generate_order_id s))
                            (new_Order (fst (generate_order_id s)) ty p q sy client))"
  have "no_cross s2"
    using assms(1) no_cross_cong [of s2 s] by (simp add: s2_def generate_order_id_def)
  moreover from assms(2) False have "match_order s2 (nextAddr s) = Inr s'"
    by (auto simp: submit_order_def s2_def Let_def split_def alloc_def generate_order_id_def
             split: sum.splits)
  ultimately show ?thesis by (rule match_order_no_cross)
qed

lemma cancel_order_no_cross:
  assumes "no_cross s"
  shows "no_cross (snd (cancel_order s oid))"
proof (cases "orderMap s oid")
  case None
  with assms show ?thesis by (simp add: cancel_order_def)
next
  case (Some a)
  define s0 where "s0 = s\<lparr>heap := (heap s)(a := cancel (heap s a))\<rparr>"
  have "no_cross s0" using assms no_cross_cong [of s0 s] by (simp add: s0_def)
  from sub_ladder_no_cross [OF this remove_order_sub_ladder [of s0 oid]]
  show ?thesis using Some by (simp add: cancel_order_def s0_def)
qed

lemma modify_order_no_cross:
  assumes "no_cross s" "modify_order s oid p q = Inr (r, s')"
  shows "no_cross s'"
proof (cases "\<exists>a. get_order s oid = Some a \<and> status (heap s a) = PENDING")
  case False
  with assms show ?thesis
    by (auto simp: modify_order_def split: option.splits if_splits)
next
  case True
  then obtain a where a: "get_order s oid = Some a" "status (heap s a) = PENDING" by blast
  define s1 where "s1 = snd (cancel_order s oid)"
  define s2 where "s2 = snd (alloc s1 (new_Order oid (otype (heap s1 a)) p q
                                       (symbol (heap s1 a)) (clientId (heap s1 a))))"
  have "no_cross s1" unfolding s1_def by (rule cancel_order_no_cross [OF assms(1)])
  then have "no_cross s2" using no_cross_cong [of s2 s1] by (simp add: s2_def)
  moreover from assms(2) a have "match_order s2 (nextAddr s1) = Inr s'"
    by (auto simp: modify_order_def s1_def s2_def Let_def split_def alloc_def split: sum.splits)
  ultimately show ?thesis by (rule match_order_no_cross)
qed

lemma serve_no_cross:
  assumes "no_cross s" "serve s r = Inr s'"
  shows "no_cross s'"
proof (cases r)
  case (Submit ty p q sy client)
  show ?thesis
  proof (cases "submit_order s ty p q sy client")
    case (Inl e)
    with assms(2) Submit show ?thesis by simp
  next
    case (Inr x)
    with assms(2) Submit have "submit_order s ty p q sy client = Inr (fst x, s')" by auto
    then show ?thesis by (rule submit_order_no_cross [OF assms(1)])
  qed
next
  case (Cancel oid)
  with assms(2) have "s' = snd (cancel_order s oid)" by simp
  then show ?thesis by (simp add: cancel_order_no_cross [OF assms(1)])
next
  case (Modify oid p q)
  show ?thesis
  proof (cases "modify_order s oid p q")
    case (Inl e)
    with assms(2) Modify show ?thesis by simp
  next
    case (Inr x)
    with assms(2) Modify have "modify_order s oid p q = Inr (fst x, s')" by auto
    then show ?thesis by (rule modify_order_no_cross [OF assms(1)])
  qed
qed

lemma session_invariant:
  assumes "\<And>s r s'. P s \<Longrightarrow> serve s r = Inr s' \<Longrightarrow> P s'"
    and "P s" and "session s rs = Inr s'"
  shows "P s'"
  using assms(2,3)
proof (induction rs arbitrary: s)
  case Nil
  then show ?case by (simp add: session.simps)
next
  case (Cons r rs)
  show ?case
  proof (cases "serve s r")
    case (Inl e)
    with Cons.prems(2) show ?thesis by (simp add: session.simps)
  next
    case (Inr s1)
    with Cons.prems(2) have rest: "session s1 rs = Inr s'" by (simp add: session.simps)
    from assms(1) [OF Cons.prems(1) Inr] have "P s1" .
    from Cons.IH [OF this rest] show ?thesis .
  qed
qed

lemma reachable_no_cross: "reachable s \<Longrightarrow> no_cross s"
proof -
  assume "reachable s"
  then obtain g rs where run: "session (init g) rs = Inr s" by (auto simp: reachable_def)
  have "no_cross (init g)"
    by (simp add: no_cross_def book_ordered_def uncrossed_def init_def)
  from session_invariant [where P = no_cross, OF serve_no_cross this run] show ?thesis .
qed

subsection \<open>Each trade fills both orders by its quantity\<close>

lemma execute_trade_fields [simp]:
  "nextAddr (execute_trade s b sl q) = nextAddr s"
  "orderCounter (execute_trade s b sl q) = orderCounter s"
  "gen (execute_trade s b sl q) = gen s"
  "genPos (execute_trade s b sl q) = Suc (genPos s)"
  by (simp_all add: execute_trade_def Let_def split_def generate_trade_id_def fill_at_def)

lemma execute_trade_trades:
  "trades (execute_trade s b sl q) =
     trades s @ [\<lparr>tradeId = fst (generate_trade_id s), buyOrderId = orderId (heap s b),
                  sellOrderId = orderId (heap s sl), trade_symbol = symbol (heap s b),
                  trade_price = price (heap s sl), trade_quantity = q\<rparr>]"
  by (simp add: execute_trade_def Let_def split_def generate_trade_id_def fill_at_def)

lemma set_opp_levels_fields [simp]:
  "trades (set_opp_levels ty ls s) = trades s"
  "nextAddr (set_opp_levels ty ls s) = nextAddr s"
  "orderMap (set_opp_levels ty ls s) = orderMap s"
  "orderCounter (set_opp_levels ty ls s) = orderCounter s"
  "gen (set_opp_levels ty ls s) = gen s"
  "genPos (set_opp_levels ty ls s) = genPos s"
  by (simp_all add: set_opp_levels_def)

lemma filledQuantity_fill [simp]: "filledQuantity (fill ord q) = filledQuantity ord + q"
  by (simp add: fill_def Let_def)

lemma sum_below_upd_in:
  fixes f :: "'a \<Rightarrow> int" and m n :: nat
  assumes "m < n"
  shows "(\<Sum>a<n. f ((h(m := x)) a)) = (\<Sum>a<n. f (h a)) + f x - f (h m)"
proof -
  have fin: "finite {..<n}" by simp
  have mem: "m \<in> {..<n}" using assms by simp
  have "(\<Sum>a<n. f ((h(m := x)) a)) = f x + (\<Sum>a\<in>{..<n} - {m}. f ((h(m := x)) a))"
    using sum.remove [OF fin mem, of "\<lambda>a. f ((h(m := x)) a)"] by simp
  also have "(\<Sum>a\<in>{..<n} - {m}. f ((h(m := x)) a)) = (\<Sum>a\<in>{..<n} - {m}. f (h a))"
    by (rule sum.cong) auto
  finally have 1: "(\<Sum>a<n. f ((h(m := x)) a)) = f x + (\<Sum>a\<in>{..<n} - {m}. f (h a))" .
  have 2: "(\<Sum>a<n. f (h a)) = f (h m) + (\<Sum>a\<in>{..<n} - {m}. f (h a))"
    using sum.remove [OF fin mem, of "\<lambda>a. f (h a)"] by simp
  from 1 2 show ?thesis by simp
qed

lemma sum_below_upd_out:
  fixes f :: "'a \<Rightarrow> int" and t n :: nat
  assumes "n \<le> t"
  shows "(\<Sum>a<n. f ((h(t := x)) a)) = (\<Sum>a<n. f (h a))"
  using assms by (intro sum.cong) auto

lemma trade_emits:
  assumes "s1 = (if ty = BUY then execute_trade s t m q else execute_trade s m t q)"
  shows "\<exists>tr. trades s1 = trades s @ [tr] \<and> trade_quantity tr = q"
  using assms by (cases "ty = BUY") (simp_all add: execute_trade_trades)

lemma trade_fills:
  assumes mn: "m < n" and nt: "n \<le> t"
    and s1: "s1 = (if ty = BUY then execute_trade s t m q else execute_trade s m t q)"
  shows "filled_below n s1 = filled_below n s + q"
    and "filledQuantity (heap s1 t) = filledQuantity (heap s t) + q"
proof -
  have ne: "t \<noteq> m" using mn nt by simp
  define h1 where "h1 = (heap s)(t := fill (heap s t) q)"
  have hb: "ty = BUY \<Longrightarrow> heap s1 = h1(m := fill (heap s m) q)"
    using s1 ne by (simp add: execute_trade_heap Let_def h1_def)
  define h2 where "h2 = (heap s)(m := fill (heap s m) q)"
  have hs: "ty \<noteq> BUY \<Longrightarrow> heap s1 = h2(t := fill (heap s t) q)"
    using s1 ne by (simp add: execute_trade_heap Let_def h2_def)
  have b1: "(\<Sum>a<n. filledQuantity (h1 a)) = (\<Sum>a<n. filledQuantity (heap s a))"
    unfolding h1_def by (rule sum_below_upd_out [OF nt])
  have b2: "(\<Sum>a<n. filledQuantity ((h1(m := fill (heap s m) q)) a))
            = (\<Sum>a<n. filledQuantity (h1 a)) + filledQuantity (fill (heap s m) q)
              - filledQuantity (h1 m)"
    by (rule sum_below_upd_in [OF mn])
  have s2: "(\<Sum>a<n. filledQuantity (h2 a))
            = (\<Sum>a<n. filledQuantity (heap s a)) + filledQuantity (fill (heap s m) q)
              - filledQuantity (heap s m)"
    unfolding h2_def by (rule sum_below_upd_in [OF mn])
  have s3: "(\<Sum>a<n. filledQuantity ((h2(t := fill (heap s t) q)) a))
            = (\<Sum>a<n. filledQuantity (h2 a))"
    by (rule sum_below_upd_out [OF nt])
  have h1m: "h1 m = heap s m" using ne by (simp add: h1_def)
  show "filled_below n s1 = filled_below n s + q"
  proof (cases "ty = BUY")
    case True
    with hb b1 b2 h1m show ?thesis by (simp add: filled_below_def del: fun_upd_apply)
  next
    case False
    with hs s2 s3 show ?thesis by (simp add: filled_below_def del: fun_upd_apply)
  qed
  show "filledQuantity (heap s1 t) = filledQuantity (heap s t) + q"
  proof (cases "ty = BUY")
    case True
    with hb ne show ?thesis by (simp add: h1_def)
  next
    case False
    with hs show ?thesis by simp
  qed
qed

lemma hd_in_ladder_addrs:
  "ls \<noteq> [] \<Longrightarrow> snd (hd ls) \<noteq> [] \<Longrightarrow> hd (snd (hd ls)) \<in> ladder_addrs ls"
  by (cases ls) (auto simp: ladder_addrs_def)

lemma opp_levels_sub_ladder:
  "sub_ladder (buyOrders s') (buyOrders s) \<and> sub_ladder (sellOrders s') (sellOrders s)
   \<Longrightarrow> sub_ladder (opp_levels ty s') (opp_levels ty s)"
  by (simp add: opp_levels_def)

lemma match_step_conserves:
  assumes cl: "ladder_addrs (opp_levels ty s) \<subseteq> {..<n}" and nt: "n \<le> t"
    and st: "match_step ty s t = Again s'"
  shows "\<exists>new. trades s' = trades s @ new
          \<and> traded new = filledQuantity (heap s' t) - filledQuantity (heap s t)
          \<and> traded new = filled_below n s' - filled_below n s"
  using st
proof (cases rule: match_step_cases)
  case empty_level
  then have "trades s' = trades s @ []" "heap s' = heap s" by simp_all
  then show ?thesis by (auto simp: traded_def filled_below_def)
next
  case (trade m q s1 ls)
  have "m \<in> ladder_addrs (opp_levels ty s)"
    using trade(1,2,3) by (simp add: hd_in_ladder_addrs)
  with cl have mn: "m < n" by auto
  have hs: "heap s' = heap s1" "trades s' = trades s1"
    using trade(6) by auto
  obtain tr where tr: "trades s1 = trades s @ [tr]" "trade_quantity tr = q"
    using trade_emits [OF trade(5)] by blast
  from trade_fills [OF mn nt trade(5)]
  have "filled_below n s1 = filled_below n s + q"
    "filledQuantity (heap s1 t) = filledQuantity (heap s t) + q"
    by blast+
  with hs tr show ?thesis
    by (intro exI [of _ "[tr]"]) (simp add: traded_def filled_below_def)
qed

lemma match_loop_conserves:
  assumes cl: "ladder_addrs (opp_levels ty s) \<subseteq> {..<n}" and nt: "n \<le> t"
    and run: "match_loop ty s t = Inr s'"
  shows "\<exists>new. trades s' = trades s @ new
          \<and> traded new = filledQuantity (heap s' t) - filledQuantity (heap s t)
          \<and> traded new = filled_below n s' - filled_below n s"
proof -
  let ?P = "\<lambda>x. ladder_addrs (opp_levels ty x) \<subseteq> {..<n}
      \<and> (\<exists>new. trades x = trades s @ new
          \<and> traded new = filledQuantity (heap x t) - filledQuantity (heap s t)
          \<and> traded new = filled_below n x - filled_below n s)"
  have "?P s'"
  proof (rule match_loop_invariant [where P = ?P, OF _ _ run])
    show "?P s" using cl by (simp add: traded_def)
  next
    fix x x'
    assume P: "?P x" and st: "match_step ty x t = Again x'"
    then obtain new where new: "trades x = trades s @ new"
        "traded new = filledQuantity (heap x t) - filledQuantity (heap s t)"
        "traded new = filled_below n x - filled_below n s"
      by blast
    from P have clx: "ladder_addrs (opp_levels ty x) \<subseteq> {..<n}" by blast
    from match_step_conserves [OF clx nt st] obtain new' where new': "trades x' = trades x @ new'"
        "traded new' = filledQuantity (heap x' t) - filledQuantity (heap x t)"
        "traded new' = filled_below n x' - filled_below n x"
      by blast
    have "sub_ladder (opp_levels ty x') (opp_levels ty x)"
      by (rule opp_levels_sub_ladder [OF match_step_sub_ladder [OF st]])
    with clx have "ladder_addrs (opp_levels ty x') \<subseteq> {..<n}"
      by (auto simp: sub_ladder_def)
    moreover have "trades x' = trades s @ (new @ new')" using new new' by simp
    moreover have "traded (new @ new') = filledQuantity (heap x' t) - filledQuantity (heap s t)"
      using new new' by (simp add: traded_def)
    moreover have "traded (new @ new') = filled_below n x' - filled_below n s"
      using new new' by (simp add: traded_def)
    ultimately show "?P x'" by blast
  qed
  then show ?thesis by blast
qed

lemma add_order_fields [simp]:
  "heap (add_order s a) = heap s" "trades (add_order s a) = trades s"
  "nextAddr (add_order s a) = nextAddr s" "orderCounter (add_order s a) = orderCounter s"
  "gen (add_order s a) = gen s" "genPos (add_order s a) = genPos s"
  by (simp_all add: add_order_def Let_def)

lemma match_order_conserves:
  assumes cl: "ladder_addrs (buyOrders s) \<union> ladder_addrs (sellOrders s) \<subseteq> {..<n}"
    and nt: "n \<le> t" and run: "match_order s t = Inr s'"
  shows "\<exists>new. trades s' = trades s @ new
          \<and> traded new = filledQuantity (heap s' t) - filledQuantity (heap s t)
          \<and> traded new = filled_below n s' - filled_below n s"
proof (cases "quantity (heap s t) \<le> 0")
  case True
  with run have "s' = s" by (simp add: match_order_def)
  then show ?thesis by (simp add: traded_def)
next
  case False
  with run obtain s1 where loop: "match_loop (otype (heap s t)) s t = Inr s1"
    and s': "s' = (if getRemainingQuantity (heap s1 t) > 0 then add_order s1 t else s1)"
    by (auto simp: match_order_def split: sum.splits)
  have "ladder_addrs (opp_levels (otype (heap s t)) s) \<subseteq> {..<n}"
    using cl by (auto simp: opp_levels_def)
  from match_loop_conserves [OF this nt loop] s' show ?thesis
    by (auto simp: filled_below_def)
qed

lemma match_order_static:
  assumes "match_order s t = Inr s'"
  shows "static (heap s' a) = static (heap s a)"
proof (cases "quantity (heap s t) \<le> 0")
  case True
  with assms show ?thesis by (simp add: match_order_def)
next
  case False
  with assms obtain s1 where loop: "match_loop (otype (heap s t)) s t = Inr s1"
    and s': "s' = (if getRemainingQuantity (heap s1 t) > 0 then add_order s1 t else s1)"
    by (auto simp: match_order_def split: sum.splits)
  from match_loop_static [OF loop, of a] s' show ?thesis by simp
qed

lemma submit_order_run:
  assumes "submit_order s ty p q sy client = Inr (oid, s')" "0 < q" "0 < p"
  shows "oid = fst (generate_order_id s)"
    and "match_order (snd (alloc (snd (generate_order_id s)) (new_Order oid ty p q sy client)))
           (nextAddr s) = Inr s'"
  using assms
  by (auto simp: submit_order_def Let_def split_def alloc_def generate_order_id_def
           split: sum.splits)


subsection \<open>The ladders hold allocated addresses\<close>

lemma ladder_addrs_push_level [simp]:
  "ladder_addrs (push_level before p a ls) = insert a (ladder_addrs ls)"
  by (induction ls) (auto simp: ladder_addrs_def)

lemma match_step_nextAddr:
  assumes "match_step ty s t = Again s'"
  shows "nextAddr s' = nextAddr s"
  using assms by (cases rule: match_step_cases) (auto split: if_splits)

lemma match_loop_nextAddr:
  assumes "match_loop ty s t = Inr s'"
  shows "nextAddr s' = nextAddr s"
proof (rule match_loop_invariant [where P = "\<lambda>x. nextAddr x = nextAddr s", OF _ _ assms])
  show "nextAddr s = nextAddr s" by simp
  show "\<And>x x'. nextAddr x = nextAddr s \<Longrightarrow> match_step ty x t = Again x'
        \<Longrightarrow> nextAddr x' = nextAddr s"
    by (simp add: match_step_nextAddr)
qed

lemma sub_ladder_closed:
  assumes "book_closed s" "sub_ladder (buyOrders s') (buyOrders s)"
    "sub_ladder (sellOrders s') (sellOrders s)" "nextAddr s \<le> nextAddr s'"
  shows "book_closed s'"
proof -
  have b: "ladder_addrs (buyOrders s') \<subseteq> ladder_addrs (buyOrders s)"
    using assms(2) by (simp add: sub_ladder_def)
  have a: "ladder_addrs (sellOrders s') \<subseteq> ladder_addrs (sellOrders s)"
    using assms(3) by (simp add: sub_ladder_def)
  show ?thesis
    unfolding book_closed_def
  proof
    fix x assume "x \<in> ladder_addrs (buyOrders s') \<union> ladder_addrs (sellOrders s')"
    with a b have "x \<in> ladder_addrs (buyOrders s) \<union> ladder_addrs (sellOrders s)" by blast
    with assms(1) have "x < nextAddr s" unfolding book_closed_def by blast
    with assms(4) show "x < nextAddr s'" by simp
  qed
qed

lemma add_order_closed:
  assumes "book_closed s" "t < nextAddr s"
  shows "book_closed (add_order s t)"
  using assms by (auto simp: book_closed_def add_order_ladders)

lemma match_order_closed:
  assumes cl: "book_closed s" and t: "t < nextAddr s" and run: "match_order s t = Inr s'"
  shows "book_closed s'"
proof (cases "quantity (heap s t) \<le> 0")
  case True
  with run cl show ?thesis by (simp add: match_order_def)
next
  case False
  with run obtain s1 where loop: "match_loop (otype (heap s t)) s t = Inr s1"
    and s': "s' = (if getRemainingQuantity (heap s1 t) > 0 then add_order s1 t else s1)"
    by (auto simp: match_order_def split: sum.splits)
  have n1: "nextAddr s1 = nextAddr s" by (rule match_loop_nextAddr [OF loop])
  have "book_closed s1"
    using sub_ladder_closed [OF cl] match_loop_sub_ladder [OF loop] n1 by simp
  with s' t n1 show ?thesis by (simp add: add_order_closed)
qed

lemma alloc_closed:
  assumes "book_closed s"
  shows "book_closed (snd (alloc s ord))" "fst (alloc s ord) < nextAddr (snd (alloc s ord))"
  using assms by (simp_all add: book_closed_def alloc_def less_Suc_eq)

lemma submit_order_closed:
  assumes "book_closed s" "submit_order s ty p q sy client = Inr (oid, s')"
  shows "book_closed s'"
proof (cases "q \<le> 0 \<or> p \<le> 0")
  case True
  with assms show ?thesis by (simp add: submit_order_def)
next
  case False
  define s1 where "s1 = snd (generate_order_id s)"
  define ord where "ord = new_Order (fst (generate_order_id s)) ty p q sy client"
  have c1: "book_closed s1" using assms(1) by (simp add: s1_def generate_order_id_def book_closed_def)
  from assms(2) False have "match_order (snd (alloc s1 ord)) (fst (alloc s1 ord)) = Inr s'"
    by (auto simp: submit_order_def s1_def ord_def Let_def split_def split: sum.splits)
  from match_order_closed [OF alloc_closed [OF c1] this] show ?thesis .
qed

lemma cancel_order_closed:
  assumes "book_closed s"
  shows "book_closed (snd (cancel_order s oid))"
proof (cases "orderMap s oid")
  case None
  with assms show ?thesis by (simp add: cancel_order_def)
next
  case (Some a)
  define s0 where "s0 = s\<lparr>heap := (heap s)(a := cancel (heap s a))\<rparr>"
  have "book_closed s0" using assms by (simp add: s0_def book_closed_def)
  from sub_ladder_closed [OF this remove_order_sub_ladder [of s0 oid]]
  show ?thesis using Some by (simp add: cancel_order_def s0_def)
qed

lemma modify_order_closed:
  assumes "book_closed s" "modify_order s oid p q = Inr (r, s')"
  shows "book_closed s'"
proof (cases "\<exists>a. get_order s oid = Some a \<and> status (heap s a) = PENDING")
  case False
  with assms show ?thesis
    by (auto simp: modify_order_def split: option.splits if_splits)
next
  case True
  then obtain a where a: "get_order s oid = Some a" "status (heap s a) = PENDING" by blast
  define s1 where "s1 = snd (cancel_order s oid)"
  define ord where "ord = new_Order oid (otype (heap s1 a)) p q
                                       (symbol (heap s1 a)) (clientId (heap s1 a))"
  have c1: "book_closed s1" unfolding s1_def by (rule cancel_order_closed [OF assms(1)])
  from assms(2) a have "match_order (snd (alloc s1 ord)) (fst (alloc s1 ord)) = Inr s'"
    by (auto simp: modify_order_def s1_def ord_def Let_def split_def split: sum.splits)
  from match_order_closed [OF alloc_closed [OF c1] this] show ?thesis .
qed

lemma serve_closed:
  assumes "book_closed s" "serve s r = Inr s'"
  shows "book_closed s'"
proof (cases r)
  case (Submit ty p q sy client)
  show ?thesis
  proof (cases "submit_order s ty p q sy client")
    case (Inl e)
    with assms(2) Submit show ?thesis by simp
  next
    case (Inr x)
    with assms(2) Submit have "submit_order s ty p q sy client = Inr (fst x, s')" by auto
    then show ?thesis by (rule submit_order_closed [OF assms(1)])
  qed
next
  case (Cancel oid)
  with assms(2) have "s' = snd (cancel_order s oid)" by simp
  then show ?thesis by (simp add: cancel_order_closed [OF assms(1)])
next
  case (Modify oid p q)
  show ?thesis
  proof (cases "modify_order s oid p q")
    case (Inl e)
    with assms(2) Modify show ?thesis by simp
  next
    case (Inr x)
    with assms(2) Modify have "modify_order s oid p q = Inr (fst x, s')" by auto
    then show ?thesis by (rule modify_order_closed [OF assms(1)])
  qed
qed

lemma reachable_closed: "reachable s \<Longrightarrow> book_closed s"
proof -
  assume "reachable s"
  then obtain g rs where run: "session (init g) rs = Inr s" by (auto simp: reachable_def)
  have "book_closed (init g)"
    by (simp add: book_closed_def init_def ladder_addrs_def)
  from session_invariant [where P = book_closed, OF serve_closed this run] show ?thesis .
qed

subsection \<open>Invariants of a session\<close>

lemma serve_preserves:
  assumes mo: "\<And>s oid ty p q sy client s'. P s
            \<Longrightarrow> match_order (snd (alloc s (new_Order oid ty p q sy client))) (nextAddr s) = Inr s'
            \<Longrightarrow> P s'"
    and ca: "\<And>s oid. P s \<Longrightarrow> P (snd (cancel_order s oid))"
    and ctr: "\<And>s. P s \<Longrightarrow> P (snd (generate_order_id s))"
    and P: "P s" and run: "serve s r = Inr s'"
  shows "P s'"
proof (cases r)
  case (Submit ty p q sy client)
  show ?thesis
  proof (cases "q \<le> 0 \<or> p \<le> 0")
    case True
    with run Submit P show ?thesis by (simp add: submit_order_def)
  next
    case False
    define s1 where "s1 = snd (generate_order_id s)"
    define ord where "ord = new_Order (fst (generate_order_id s)) ty p q sy client"
    have n: "nextAddr s1 = nextAddr s" by (simp add: s1_def generate_order_id_def)
    from run Submit False have "match_order (snd (alloc s1 ord)) (nextAddr s1) = Inr s'"
      by (auto simp: submit_order_def s1_def ord_def Let_def split_def alloc_def
               split: sum.splits)
    from mo [OF ctr [OF P, folded s1_def] this [unfolded ord_def]] show ?thesis .
  qed
next
  case (Cancel oid)
  with run have "s' = snd (cancel_order s oid)" by simp
  with ca [OF P] show ?thesis by simp
next
  case (Modify oid p q)
  show ?thesis
  proof (cases "\<exists>a. get_order s oid = Some a \<and> status (heap s a) = PENDING")
    case False
    with run Modify P show ?thesis
      by (auto simp: modify_order_def split: option.splits if_splits)
  next
    case True
    then obtain a where a: "get_order s oid = Some a" "status (heap s a) = PENDING" by blast
    define s1 where "s1 = snd (cancel_order s oid)"
    define ord where "ord = new_Order oid (otype (heap s1 a)) p q
                                       (symbol (heap s1 a)) (clientId (heap s1 a))"
    from run Modify a have "match_order (snd (alloc s1 ord)) (nextAddr s1) = Inr s'"
      by (auto simp: modify_order_def s1_def ord_def Let_def split_def alloc_def
               split: sum.splits)
    from mo [OF ca [OF P, of oid, folded s1_def] this [unfolded ord_def]] show ?thesis .
  qed
qed

lemma reachable_invariant:
  assumes mo: "\<And>s oid ty p q sy client s'. P s
            \<Longrightarrow> match_order (snd (alloc s (new_Order oid ty p q sy client))) (nextAddr s) = Inr s'
            \<Longrightarrow> P s'"
    and ca: "\<And>s oid. P s \<Longrightarrow> P (snd (cancel_order s oid))"
    and ctr: "\<And>s. P s \<Longrightarrow> P (snd (generate_order_id s))"
    and init: "\<And>g. P (init g)" and re: "reachable s"
  shows "P s"
proof -
  from re obtain g rs where run: "session (init g) rs = Inr s" by (auto simp: reachable_def)
  show ?thesis
  proof (rule session_invariant [where P = P, OF _ init run])
    fix x r x' assume x: "P x" "serve x r = Inr x'"
    show "P x'"
    proof (rule serve_preserves [where P = P and s = x and r = r])
      show "\<And>s oid ty p q sy client s'. P s
            \<Longrightarrow> match_order (snd (alloc s (new_Order oid ty p q sy client))) (nextAddr s) = Inr s'
            \<Longrightarrow> P s'"
        by (rule mo)
      show "\<And>s oid. P s \<Longrightarrow> P (snd (cancel_order s oid))" by (rule ca)
      show "\<And>s. P s \<Longrightarrow> P (snd (generate_order_id s))" by (rule ctr)
      show "P x" by (rule x(1))
      show "serve x r = Inr x'" by (rule x(2))
    qed
  qed
qed

subsection \<open>The form of a trade id\<close>

lemma digits_decimal: "set (digits n) \<subseteq> set ''0123456789''"
proof (induction n rule: digits.induct)
  case (1 n)
  have d: "digit_char k \<in> set ''0123456789''" if "k < 10" for k
    unfolding digit_char_def by (rule nth_mem) (use that in simp)
  show ?case
  proof (cases "n < 10")
    case True
    with d [of n] show ?thesis by (subst digits.simps) simp
  next
    case False
    have "n mod 10 < 10" by simp
    from d [OF this] "1.IH" False show ?thesis by (subst digits.simps) simp
  qed
qed

lemma digits_length_le: "0 < k \<Longrightarrow> n < 10 ^ k \<Longrightarrow> length (digits n) \<le> k"
proof (induction k arbitrary: n)
  case 0
  then show ?case by simp
next
  case (Suc k)
  show ?case
  proof (cases "n < 10")
    case True
    then show ?thesis by (subst digits.simps) simp
  next
    case False
    with Suc.prems have k: "0 < k" by (cases k) auto
    from Suc.prems have "n div 10 < 10 ^ k" by (simp add: less_mult_imp_div_less mult.commute)
    from Suc.IH [OF k this] False show ?thesis by (subst digits.simps) simp
  qed
qed

lemma digits_length_gt: "10 ^ k \<le> n \<Longrightarrow> k < length (digits n)"
proof (induction k arbitrary: n)
  case 0
  then show ?case by (subst digits.simps) simp
next
  case (Suc k)
  have "(1::nat) \<le> 10 ^ k" by simp
  then have "(10::nat) \<le> 10 ^ Suc k" by simp
  with Suc.prems have ge: "\<not> n < 10" by linarith
  have "10 ^ k \<le> n div 10" using Suc.prems by simp
  from Suc.IH [OF this] ge show ?case by (subst digits.simps) simp
qed

lemma generate_trade_id_form:
  "\<exists>n. 100000 \<le> n \<and> n \<le> 999999 \<and> fst (generate_trade_id s) = ''T'' @ digits n"
proof -
  define n where "n = 100000 + gen s (genPos s) mod 900000"
  have "gen s (genPos s) mod 900000 < 900000" by simp
  then have "100000 \<le> n \<and> n \<le> 999999" unfolding n_def by linarith
  moreover have "fst (generate_trade_id s) = ''T'' @ digits n"
    by (simp add: generate_trade_id_def string_of_int_def dis_def n_def nat_add_distrib)
  ultimately show ?thesis by blast
qed

lemma match_step_trades:
  assumes "match_step ty s t = Again s'"
  shows "trades s' = trades s
         \<or> (\<exists>tr. trades s' = trades s @ [tr] \<and> tradeId tr = fst (generate_trade_id s))"
  using assms
proof (cases rule: match_step_cases)
  case empty_level
  then show ?thesis by simp
next
  case (trade m q s1 ls)
  have "\<exists>tr. trades s1 = trades s @ [tr] \<and> tradeId tr = fst (generate_trade_id s)"
    using trade(5) by (cases "ty = BUY") (simp_all add: execute_trade_trades)
  moreover have "trades s' = trades s1" using trade(6) by auto
  ultimately show ?thesis by simp
qed

lemma match_step_ids_drawn:
  assumes "trade_ids_drawn s" "match_step ty s t = Again s'"
  shows "trade_ids_drawn s'"
  using match_step_trades [OF assms(2)] assms(1) generate_trade_id_form [of s]
  unfolding trade_ids_drawn_def by auto

lemma match_order_ids_drawn:
  assumes "trade_ids_drawn s" "match_order s t = Inr s'"
  shows "trade_ids_drawn s'"
proof (cases "quantity (heap s t) \<le> 0")
  case True
  with assms show ?thesis by (simp add: match_order_def)
next
  case False
  with assms(2) obtain s1 where loop: "match_loop (otype (heap s t)) s t = Inr s1"
    and s': "s' = (if getRemainingQuantity (heap s1 t) > 0 then add_order s1 t else s1)"
    by (auto simp: match_order_def split: sum.splits)
  have "trade_ids_drawn s1"
    by (rule match_loop_invariant [where P = trade_ids_drawn, OF match_step_ids_drawn assms(1) loop])
  with s' show ?thesis by (simp add: trade_ids_drawn_def)
qed

lemma cancel_order_trades [simp]: "trades (snd (cancel_order s oid)) = trades s"
  by (simp add: cancel_order_def split: option.splits)

subsection \<open>The index holds live orders\<close>


lemma orderId_fill [simp]: "orderId (fill ord q) = orderId ord"
  by (simp add: fill_def Let_def)

lemma remove_order_orderMap [simp]:
  "orderMap (snd (remove_order s oid)) = (orderMap s)(oid := None)"
  by (auto simp: remove_order_def Let_def split: option.splits)

lemma execute_trade_orderMap:
  "orderMap (execute_trade s b sl q) k =
     (if (isFullyFilled (heap (execute_trade s b sl q) b) \<and> k = orderId (heap s b))
         \<or> (isFullyFilled (heap (execute_trade s b sl q) sl) \<and> k = orderId (heap s sl))
      then None else orderMap s k)"
proof -
  define s2 where "s2 = fill_at (fill_at (snd (generate_trade_id s)) b q) sl q"
  define s3 where "s3 = (if isFullyFilled (heap s2 b)
                then snd (remove_order s2 (orderId (heap s2 b))) else s2)"
  define s4 where "s4 = (if isFullyFilled (heap s3 sl)
                then snd (remove_order s3 (orderId (heap s3 sl))) else s3)"
  have e: "orderMap (execute_trade s b sl q) = orderMap s4" "heap (execute_trade s b sl q) = heap s4"
    by (simp_all add: execute_trade_def s4_def s3_def s2_def Let_def split_def)
  have h: "heap s4 = heap s2" "heap s3 = heap s2" by (simp_all add: s4_def s3_def)
  have m2: "orderMap s2 = orderMap s" by (simp add: s2_def fill_at_def generate_trade_id_def)
  have st: "static (heap s2 a) = static (heap s a)" for a
    using execute_trade_static [of s b sl q a] by (simp add: e h)
  have ids: "orderId (heap s2 b) = orderId (heap s b)" "orderId (heap s2 sl) = orderId (heap s sl)"
    using static_fields [OF st [of b]] static_fields [OF st [of sl]] by simp_all
  show ?thesis
    by (simp add: e h s4_def s3_def m2 ids)
qed







lemma cancel_order_effect:
  assumes "orderMap s oid = Some a"
  shows "orderMap (snd (cancel_order s oid)) oid = None"
    and "status (heap (snd (cancel_order s oid)) a) = CANCELLED"
  using assms by (simp_all add: cancel_order_def cancel_def)

subsection \<open>Where a reissued order rests\<close>

lemma map_of_absent: "p \<notin> set (map fst ls) \<Longrightarrow> map_of ls p = None"
  by (simp add: map_of_eq_None_iff)

lemma map_of_push_level_less:
  "sorted_wrt (<) (map fst ls) \<Longrightarrow>
   map_of (push_level (<) p a ls) p
     = Some ((case map_of ls p of None \<Rightarrow> [] | Some v \<Rightarrow> v) @ [a])"
proof (induction ls)
  case Nil
  then show ?case by simp
next
  case (Cons kv ls)
  show ?case
  proof (cases "fst kv = p")
    case True
    then show ?thesis by (cases kv) simp
  next
    case ne: False
    show ?thesis
    proof (cases "p < fst kv")
      case True
      with Cons.prems have "p \<notin> set (map fst ls)" by auto
      with ne True map_of_absent [of p ls] show ?thesis by (cases kv) simp
    next
      case False
      with ne Cons show ?thesis by (cases kv) simp
    qed
  qed
qed

lemma map_of_push_level_greater:
  "sorted_wrt (>) (map fst ls) \<Longrightarrow>
   map_of (push_level (>) p a ls) p
     = Some ((case map_of ls p of None \<Rightarrow> [] | Some v \<Rightarrow> v) @ [a])"
proof (induction ls)
  case Nil
  then show ?case by simp
next
  case (Cons kv ls)
  show ?case
  proof (cases "fst kv = p")
    case True
    then show ?thesis by (cases kv) simp
  next
    case ne: False
    show ?thesis
    proof (cases "p > fst kv")
      case True
      with Cons.prems have "p \<notin> set (map fst ls)" by auto
      with ne True map_of_absent [of p ls] show ?thesis by (cases kv) simp
    next
      case False
      with ne Cons show ?thesis by (cases kv) simp
    qed
  qed
qed

lemma cancel_order_fields [simp]:
  "nextAddr (snd (cancel_order s oid)) = nextAddr s"
  "static (heap (snd (cancel_order s oid)) a) = static (heap s a)"
  by (simp_all add: cancel_order_def split: option.splits)

lemma match_step_unmapped:
  assumes "orderMap s k = None" "match_step ty s t = Again s'"
  shows "orderMap s' k = None"
  using assms(2)
proof (cases rule: match_step_cases)
  case empty_level
  with assms(1) show ?thesis by simp
next
  case (trade m q s1 ls)
  have "orderMap s1 k = None"
    using trade(5) assms(1) by (auto simp: execute_trade_orderMap)
  moreover have "orderMap s' = orderMap s1" using trade(6) by auto
  ultimately show ?thesis by simp
qed

lemma match_loop_unmapped:
  assumes "orderMap s k = None" "match_loop ty s t = Inr s'"
  shows "orderMap s' k = None"
  by (rule match_loop_invariant [where P = "\<lambda>x. orderMap x k = None",
        OF match_step_unmapped assms])

lemma reissue_rests_last:
  assumes ord: "book_ordered s" and un: "orderMap s oid = None"
    and run: "reissue s oid ty p q sy client = Inr s'"
    and ma: "orderMap s' oid = Some a'"
  shows "a' = nextAddr s" and "heap s' a' = heap s' (nextAddr s)"
    and "price (heap s' a') = p" and "orderId (heap s' a') = oid" and "otype (heap s' a') = ty"
    and "\<exists>v. map_of (if ty = BUY then buyOrders s' else sellOrders s') p = Some (v @ [a'])"
proof -
  let ?t = "nextAddr s"
  define s2 where "s2 = snd (alloc s (new_Order oid ty p q sy client))"
  have mo: "match_order s2 ?t = Inr s'" using run by (simp add: reissue_def s2_def)
  have h2: "heap s2 ?t = new_Order oid ty p q sy client" and m2: "orderMap s2 = orderMap s"
    by (simp_all add: s2_def alloc_def)
  have pos: "\<not> quantity (heap s2 ?t) \<le> 0"
  proof
    assume "quantity (heap s2 ?t) \<le> 0"
    with mo have "s' = s2" by (simp add: match_order_def)
    with ma un m2 show False by simp
  qed
  with mo obtain s3 where loop: "match_loop (otype (heap s2 ?t)) s2 ?t = Inr s3"
    and s': "s' = (if getRemainingQuantity (heap s3 ?t) > 0 then add_order s3 ?t else s3)"
    by (auto simp: match_order_def split: sum.splits)
  have u3: "orderMap s3 oid = None"
    by (rule match_loop_unmapped [OF _ loop]) (simp add: m2 un)
  have st: "static (heap s3 ?t) = static (heap s2 ?t)" by (rule match_loop_static [OF loop])
  have f3: "orderId (heap s3 ?t) = oid" "price (heap s3 ?t) = p" "otype (heap s3 ?t) = ty"
    "quantity (heap s3 ?t) = q"
    using static_fields [OF st] by (simp_all add: h2 new_Order_def)
  have add: "s' = add_order s3 ?t"
  proof (rule ccontr)
    assume "s' \<noteq> add_order s3 ?t"
    with s' have "s' = s3" by (simp split: if_splits)
    with ma u3 show False by simp
  qed
  have q: "0 < quantity (heap s3 ?t)" using pos static_fields [OF st] by simp
  have "sub_ladder (buyOrders s3) (buyOrders s2) \<and> sub_ladder (sellOrders s3) (sellOrders s2)"
    by (rule match_loop_sub_ladder [OF loop])
  moreover have "book_ordered s2" using ord by (simp add: book_ordered_def s2_def)
  ultimately have o3: "sorted_wrt (>) (map fst (buyOrders s3))"
      "sorted_wrt (<) (map fst (sellOrders s3))"
    by (simp_all add: book_ordered_def sub_ladder_def)
  have "orderMap s' = (orderMap s3)(oid \<mapsto> ?t)"
    using q by (simp add: add add_order_def Let_def f3)
  with ma show a: "a' = ?t" by simp
  then show "heap s' a' = heap s' ?t" by simp
  show "price (heap s' a') = p" "orderId (heap s' a') = oid" "otype (heap s' a') = ty"
    by (simp_all add: a add f3)
  show "\<exists>v. map_of (if ty = BUY then buyOrders s' else sellOrders s') p = Some (v @ [a'])"
    using q o3 by (simp add: a add add_order_ladders f3 map_of_push_level_less
          map_of_push_level_greater)
qed

lemma cancel_order_fst: "fst (cancel_order s oid) = (orderMap s oid \<noteq> None)"
  by (simp add: cancel_order_def remove_order_def Let_def split: option.splits)

lemma modify_order_pending:
  assumes "get_order s oid = Some a" "status (heap s a) = PENDING"
  shows "modify_order s oid p q =
           map_sum id (Pair True)
             (reissue (snd (cancel_order s oid)) oid (otype (heap s a)) p q
                (symbol (heap s a)) (clientId (heap s a)))"
    and "fst (cancel_order s oid)"
proof -
  define s1 where "s1 = snd (cancel_order s oid)"
  have st: "static (heap s1 a) = static (heap s a)" by (simp add: s1_def)
  have f: "otype (heap s1 a) = otype (heap s a)" "symbol (heap s1 a) = symbol (heap s a)"
    "clientId (heap s1 a) = clientId (heap s a)"
    using static_fields [OF st] by simp_all
  define r where "r = reissue s1 oid (otype (heap s a)) p q (symbol (heap s a)) (clientId (heap s a))"
  have "modify_order s oid p q = (case r of Inl e \<Rightarrow> Inl e | Inr s3 \<Rightarrow> Inr (True, s3))"
    using assms
    by (simp add: modify_order_def r_def reissue_def Let_def split_def alloc_def f
          s1_def [symmetric])
  also have "\<dots> = map_sum id (Pair True) r" by (cases r) simp_all
  finally show "modify_order s oid p q =
           map_sum id (Pair True)
             (reissue (snd (cancel_order s oid)) oid (otype (heap s a)) p q
                (symbol (heap s a)) (clientId (heap s a)))"
    by (simp add: r_def s1_def)
  show "fst (cancel_order s oid)"
    using assms(1) by (simp add: cancel_order_fst get_order_def)
qed


subsection \<open>The state where a matching run stops\<close>

text \<open>
  The conservation argument of the loop, carried to the state in which the run stops:
  a turn that ends at the destroyed reference has made one more trade, with its two
  fills, and nothing else.
\<close>

lemma match_step_Inl:
  assumes "match_step ty s t = Done (Inl e)"
  shows "opp_levels ty s \<noteq> []" and "snd (hd (opp_levels ty s)) \<noteq> []"
  using assms
  by (auto simp: match_step_def Let_def split: if_splits option.splits list.splits)

lemma trade_turn_conserves:
  assumes cl: "ladder_addrs (opp_levels ty s) \<subseteq> {..<n}" and nt: "n \<le> t"
    and ne: "opp_levels ty s \<noteq> []" "snd (hd (opp_levels ty s)) \<noteq> []"
  shows "\<exists>new. trades (trade_turn ty s t) = trades s @ new
          \<and> traded new = filledQuantity (heap (trade_turn ty s t) t) - filledQuantity (heap s t)
          \<and> traded new = filled_below n (trade_turn ty s t) - filled_below n s"
proof -
  define m where "m = hd (snd (hd (opp_levels ty s)))"
  define q where "q = min (getRemainingQuantity (heap s t)) (getRemainingQuantity (heap s m))"
  have s1: "trade_turn ty s t = (if ty = BUY then execute_trade s t m q else execute_trade s m t q)"
    by (simp add: trade_turn_def Let_def m_def q_def)
  have "m \<in> ladder_addrs (opp_levels ty s)"
    using ne by (simp add: hd_in_ladder_addrs m_def)
  with cl have mn: "m < n" by auto
  obtain tr where tr: "trades (trade_turn ty s t) = trades s @ [tr]" "trade_quantity tr = q"
    using trade_emits [OF s1] by blast
  from trade_fills [OF mn nt s1]
  have "filled_below n (trade_turn ty s t) = filled_below n s + q"
    "filledQuantity (heap (trade_turn ty s t) t) = filledQuantity (heap s t) + q"
    by simp_all
  with tr show ?thesis
    by (intro exI [of _ "[tr]"]) (simp add: traded_def)
qed

lemma match_halt_conserves:
  assumes cl: "ladder_addrs (opp_levels ty s) \<subseteq> {..<n}" and nt: "n \<le> t"
  shows "\<exists>new. trades (match_halt ty s t) = trades s @ new
          \<and> traded new = filledQuantity (heap (match_halt ty s t) t) - filledQuantity (heap s t)
          \<and> traded new = filled_below n (match_halt ty s t) - filled_below n s"
  using cl nt
proof (induction ty s t rule: match_halt.induct)
  case (1 ty s t)
  note cl = "1.prems"(1) and nt = "1.prems"(2)
  show ?case
  proof (cases "match_step ty s t")
    case (Done r)
    show ?thesis
    proof (cases r)
      case (Inr s')
      with Done have "match_halt ty s t = s'" by (simp add: match_halt.simps [of ty s t])
      moreover have "s' = s" using Done Inr by (simp add: match_step_Done(1))
      ultimately show ?thesis by (simp add: traded_def)
    next
      case (Inl e)
      with Done have h: "match_halt ty s t = trade_turn ty s t"
        by (simp add: match_halt.simps [of ty s t])
      from Done Inl have st: "match_step ty s t = Done (Inl e)" by simp
      show ?thesis unfolding h
        by (rule trade_turn_conserves [OF cl nt match_step_Inl [OF st]])
    qed
  next
    case (Again s1)
    then have h: "match_halt ty s t = match_halt ty s1 t"
      by (simp add: match_halt.simps [of ty s t])
    from match_step_conserves [OF cl nt Again] obtain new where new: "trades s1 = trades s @ new"
        "traded new = filledQuantity (heap s1 t) - filledQuantity (heap s t)"
        "traded new = filled_below n s1 - filled_below n s"
      by blast
    have "sub_ladder (opp_levels ty s1) (opp_levels ty s)"
      by (rule opp_levels_sub_ladder [OF match_step_sub_ladder [OF Again]])
    with cl have cl1: "ladder_addrs (opp_levels ty s1) \<subseteq> {..<n}"
      by (auto simp: sub_ladder_def)
    from "1.IH" [OF Again cl1 nt] obtain new' where new':
        "trades (match_halt ty s1 t) = trades s1 @ new'"
        "traded new' = filledQuantity (heap (match_halt ty s1 t) t) - filledQuantity (heap s1 t)"
        "traded new' = filled_below n (match_halt ty s1 t) - filled_below n s1"
      by blast
    have "trades (match_halt ty s1 t) = trades s @ (new @ new')" using new new' by simp
    moreover have "traded (new @ new')
        = filledQuantity (heap (match_halt ty s1 t) t) - filledQuantity (heap s t)"
      using new new' by (simp add: traded_def)
    moreover have "traded (new @ new') = filled_below n (match_halt ty s1 t) - filled_below n s"
      using new new' by (simp add: traded_def)
    ultimately show ?thesis unfolding h by blast
  qed
qed

lemma trade_turn_static [simp]: "static (heap (trade_turn ty s t) a) = static (heap s a)"
  by (simp add: trade_turn_def Let_def)

lemma match_halt_static: "static (heap (match_halt ty s t) a) = static (heap s a)"
proof (induction ty s t rule: match_halt.induct)
  case (1 ty s t)
  show ?case
  proof (cases "match_step ty s t")
    case (Done r)
    show ?thesis
    proof (cases r)
      case (Inr s')
      with Done have "match_halt ty s t = s'" by (simp add: match_halt.simps [of ty s t])
      moreover have "s' = s" using Done Inr by (simp add: match_step_Done(1))
      ultimately show ?thesis by simp
    next
      case (Inl e)
      with Done have "match_halt ty s t = trade_turn ty s t"
        by (simp add: match_halt.simps [of ty s t])
      then show ?thesis by simp
    qed
  next
    case (Again s1)
    then have "match_halt ty s t = match_halt ty s1 t"
      by (simp add: match_halt.simps [of ty s t])
    with "1.IH" [OF Again] match_step_static [OF Again, of a] show ?thesis by simp
  qed
qed

lemma match_loop_halt:
  assumes "match_loop ty s t = Inr s'"
  shows "match_halt ty s t = s'"
  using assms
proof (induction ty s t rule: match_loop.induct)
  case (1 ty s t)
  show ?case
  proof (cases "match_step ty s t")
    case (Done r)
    with "1.prems" have "r = Inr s'" by (simp add: match_loop.simps [of ty s t])
    with Done show ?thesis by (simp add: match_halt.simps [of ty s t])
  next
    case (Again s1)
    with "1.prems" have "match_loop ty s1 t = Inr s'" by (simp add: match_loop.simps [of ty s t])
    from "1.IH" [OF Again this] Again show ?thesis by (simp add: match_halt.simps [of ty s t])
  qed
qed

lemma match_step_trades_length:
  assumes "match_step ty s t = Again s'"
  shows "length (trades s) \<le> length (trades s')"
  using match_step_trades [OF assms] by auto

lemma match_loop_stops_after_trade:
  assumes "match_loop ty s t = Inl e"
  shows "length (trades s) < length (trades (match_halt ty s t))"
  using assms
proof (induction ty s t rule: match_loop.induct)
  case (1 ty s t)
  show ?case
  proof (cases "match_step ty s t")
    case (Done r)
    with "1.prems" have "r = Inl e" by (simp add: match_loop.simps [of ty s t])
    with Done have "match_halt ty s t = trade_turn ty s t"
      by (simp add: match_halt.simps [of ty s t])
    then show ?thesis by (simp add: trade_turn_def Let_def execute_trade_trades)
  next
    case (Again s1)
    with "1.prems" have "match_loop ty s1 t = Inl e" by (simp add: match_loop.simps [of ty s t])
    from "1.IH" [OF Again this] match_step_trades_length [OF Again] Again show ?thesis
      by (simp add: match_halt.simps [of ty s t])
  qed
qed


subsection \<open>The size of a level in 32 bits\<close>

lemma level_size_small:
  "level_size h [a] = wrap32 (getRemainingQuantity (h a))"
  by (simp add: level_size_def)

lemma level_size_wraps:
  assumes "getRemainingQuantity (h a) = 2147483647" "getRemainingQuantity (h b) = 2147483647"
  shows "level_size h [a, b] = - 2"
  using assms by (simp add: level_size_def wrap32_def)
section \<open>Worked sessions\<close>

text \<open>
  Sessions on a new engine, evaluated step by step. The symbol and client of every order
  are the defaults of submit_order. Addresses are allocated in order: the n-th order
  object lives at address n - 1.
\<close>

lemma order_ids: "string_of_int 1 = ''1''" "string_of_int 2 = ''2''" "string_of_int 3 = ''3''"
  by (simp_all add: string_of_int_def digit_char_def digits.simps)

lemmas book_defs = generate_order_id_def alloc_def
  new_Order_def add_order_def update_market_data_def level_size_def wrap32_def getRemainingQuantity_def
  isFullyFilled_def fill_at_def fill_def
  generate_trade_id_def remove_order_def remove_from_levels_def erase_level_def cancel_order_def
  cancel_def get_order_def Let_def init_def order_ids

lemmas step_defs = match_step_def Let_def opp_levels_def set_opp_levels_def no_match_def
  getRemainingQuantity_def isFullyFilled_def erase_level_def

lemmas session_defs = session.simps submit_order_def match_order_def match_loop.simps
  step_defs book_defs modify_order_def

lemmas halt_defs = submit_halt_def match_order_halt_def match_halt.simps trade_turn_def

lemma trade_partial_fill_1:
  "execute_trade
     \<lparr>heap = empty_heap (0 := \<lparr>orderId = ''O1'', otype = SELL, price = 100,
     quantity = 100, filledQuantity = 0, status = PENDING, symbol = ''DEFAULT'', clientId =
     ''DEFAULT''\<rparr>, Suc 0 := \<lparr>orderId = ''O2'', otype = BUY, price = 100,
     quantity = 30, filledQuantity = 0, status = PENDING, symbol = ''DEFAULT'', clientId =
     ''DEFAULT''\<rparr>), nextAddr = Suc (Suc 0), buyOrders = [], sellOrders = [(100,
     [0])], orderMap = [''O1'' \<mapsto> 0], bestBid = 0, bestAsk = 100, bidSize = 0,
     askSize = 100, orderCounter = 2, trades = [], gen = g, genPos = 0\<rparr>
     (Suc 0) 0 30
   = \<lparr>heap = empty_heap (Suc 0 := \<lparr>orderId = ''O2'', otype = BUY, price = 100,
     quantity = 30, filledQuantity = 30, status = FILLED, symbol = ''DEFAULT'', clientId =
     ''DEFAULT''\<rparr>, 0 := \<lparr>orderId = ''O1'', otype = SELL, price = 100, quantity
     = 100, filledQuantity = 30, status = PARTIALLY_FILLED, symbol = ''DEFAULT'', clientId =
     ''DEFAULT''\<rparr>), nextAddr = Suc (Suc 0), buyOrders = [], sellOrders = [(100,
     [0])], orderMap = [''O1'' \<mapsto> 0], bestBid = 0, bestAsk = 100, bidSize = 0,
     askSize = 100, orderCounter = 2, trades = [\<lparr>tradeId = CHR ''T'' # string_of_int
     (dis (g 0)), buyOrderId = ''O2'', sellOrderId = ''O1'', trade_symbol = ''DEFAULT'',
     trade_price = 100, trade_quantity = 30\<rparr>], gen = g, genPos = Suc 0\<rparr>"
  by (simp add: execute_trade_def book_defs)

lemma session_partial_fill:
  "session (init g) [Submit SELL 100 100 ''DEFAULT'' ''DEFAULT'', Submit BUY 100 30
   ''DEFAULT'' ''DEFAULT'']
   = Inr \<lparr>heap = empty_heap (Suc 0 := \<lparr>orderId = ''O2'', otype = BUY, price =
     100, quantity = 30, filledQuantity = 30, status = FILLED, symbol = ''DEFAULT'',
     clientId = ''DEFAULT''\<rparr>, 0 := \<lparr>orderId = ''O1'', otype = SELL, price =
     100, quantity = 100, filledQuantity = 30, status = PARTIALLY_FILLED, symbol =
     ''DEFAULT'', clientId = ''DEFAULT''\<rparr>), nextAddr = Suc (Suc 0), buyOrders = [],
     sellOrders = [(100, [0])], orderMap = [''O1'' \<mapsto> 0], bestBid = 0, bestAsk = 100,
     bidSize = 0, askSize = 100, orderCounter = 2, trades = [\<lparr>tradeId = CHR ''T'' #
     string_of_int (dis (g 0)), buyOrderId = ''O2'', sellOrderId = ''O1'', trade_symbol =
     ''DEFAULT'', trade_price = 100, trade_quantity = 30\<rparr>], gen = g, genPos = Suc
     0\<rparr>"
  by (simp add: session_defs trade_partial_fill_1)

lemma trade_two_partial_fills_1:
  "execute_trade
     \<lparr>heap = empty_heap (Suc 0 := \<lparr>orderId = ''O2'', otype = BUY, price = 100,
     quantity = 30, filledQuantity = 30, status = FILLED, symbol = ''DEFAULT'', clientId =
     ''DEFAULT''\<rparr>, 0 := \<lparr>orderId = ''O1'', otype = SELL, price = 100, quantity
     = 100, filledQuantity = 30, status = PARTIALLY_FILLED, symbol = ''DEFAULT'', clientId =
     ''DEFAULT''\<rparr>, Suc (Suc 0) := \<lparr>orderId = ''O3'', otype = BUY, price = 100,
     quantity = 30, filledQuantity = 0, status = PENDING, symbol = ''DEFAULT'', clientId =
     ''DEFAULT''\<rparr>), nextAddr = Suc (Suc (Suc 0)), buyOrders = [], sellOrders = [(100,
     [0])], orderMap = [''O1'' \<mapsto> 0], bestBid = 0, bestAsk = 100, bidSize = 0,
     askSize = 100, orderCounter = 3, trades = [\<lparr>tradeId = CHR ''T'' # string_of_int
     (dis (g 0)), buyOrderId = ''O2'', sellOrderId = ''O1'', trade_symbol = ''DEFAULT'',
     trade_price = 100, trade_quantity = 30\<rparr>], gen = g, genPos = Suc 0\<rparr>
     (Suc (Suc 0)) 0 30
   = \<lparr>heap = empty_heap (Suc 0 := \<lparr>orderId = ''O2'', otype = BUY, price = 100,
     quantity = 30, filledQuantity = 30, status = FILLED, symbol = ''DEFAULT'', clientId =
     ''DEFAULT''\<rparr>, Suc (Suc 0) := \<lparr>orderId = ''O3'', otype = BUY, price = 100,
     quantity = 30, filledQuantity = 30, status = FILLED, symbol = ''DEFAULT'', clientId =
     ''DEFAULT''\<rparr>, 0 := \<lparr>orderId = ''O1'', otype = SELL, price = 100, quantity
     = 100, filledQuantity = 60, status = PARTIALLY_FILLED, symbol = ''DEFAULT'', clientId =
     ''DEFAULT''\<rparr>), nextAddr = Suc (Suc (Suc 0)), buyOrders = [], sellOrders = [(100,
     [0])], orderMap = [''O1'' \<mapsto> 0], bestBid = 0, bestAsk = 100, bidSize = 0,
     askSize = 100, orderCounter = 3, trades = [\<lparr>tradeId = CHR ''T'' # string_of_int
     (dis (g 0)), buyOrderId = ''O2'', sellOrderId = ''O1'', trade_symbol = ''DEFAULT'',
     trade_price = 100, trade_quantity = 30\<rparr>, \<lparr>tradeId = CHR ''T'' #
     string_of_int (dis (g (Suc 0))), buyOrderId = ''O3'', sellOrderId = ''O1'',
     trade_symbol = ''DEFAULT'', trade_price = 100, trade_quantity = 30\<rparr>], gen = g,
     genPos = Suc (Suc 0)\<rparr>"
  by (simp add: execute_trade_def book_defs)

lemma session_two_partial_fills:
  "session (init g) [Submit SELL 100 100 ''DEFAULT'' ''DEFAULT'', Submit BUY 100 30
   ''DEFAULT'' ''DEFAULT'', Submit BUY 100 30 ''DEFAULT'' ''DEFAULT'']
   = Inr \<lparr>heap = empty_heap (Suc 0 := \<lparr>orderId = ''O2'', otype = BUY, price =
     100, quantity = 30, filledQuantity = 30, status = FILLED, symbol = ''DEFAULT'',
     clientId = ''DEFAULT''\<rparr>, Suc (Suc 0) := \<lparr>orderId = ''O3'', otype = BUY,
     price = 100, quantity = 30, filledQuantity = 30, status = FILLED, symbol = ''DEFAULT'',
     clientId = ''DEFAULT''\<rparr>, 0 := \<lparr>orderId = ''O1'', otype = SELL, price =
     100, quantity = 100, filledQuantity = 60, status = PARTIALLY_FILLED, symbol =
     ''DEFAULT'', clientId = ''DEFAULT''\<rparr>), nextAddr = Suc (Suc (Suc 0)), buyOrders =
     [], sellOrders = [(100, [0])], orderMap = [''O1'' \<mapsto> 0], bestBid = 0, bestAsk =
     100, bidSize = 0, askSize = 100, orderCounter = 3, trades = [\<lparr>tradeId = CHR
     ''T'' # string_of_int (dis (g 0)), buyOrderId = ''O2'', sellOrderId = ''O1'',
     trade_symbol = ''DEFAULT'', trade_price = 100, trade_quantity = 30\<rparr>,
     \<lparr>tradeId = CHR ''T'' # string_of_int (dis (g (Suc 0))), buyOrderId = ''O3'',
     sellOrderId = ''O1'', trade_symbol = ''DEFAULT'', trade_price = 100, trade_quantity =
     30\<rparr>], gen = g, genPos = Suc (Suc 0)\<rparr>"
  by (simp add: session_defs trade_partial_fill_1 trade_two_partial_fills_1)

lemma trade_sell_into_bid_1:
  "execute_trade
     \<lparr>heap = empty_heap (0 := \<lparr>orderId = ''O1'', otype = BUY, price = 101,
     quantity = 100, filledQuantity = 0, status = PENDING, symbol = ''DEFAULT'', clientId =
     ''DEFAULT''\<rparr>, Suc 0 := \<lparr>orderId = ''O2'', otype = SELL, price = 100,
     quantity = 50, filledQuantity = 0, status = PENDING, symbol = ''DEFAULT'', clientId =
     ''DEFAULT''\<rparr>), nextAddr = Suc (Suc 0), buyOrders = [(101, [0])], sellOrders =
     [], orderMap = [''O1'' \<mapsto> 0], bestBid = 101, bestAsk = 0, bidSize = 100, askSize
     = 0, orderCounter = 2, trades = [], gen = g, genPos = 0\<rparr>
     0 (Suc 0) 50
   = \<lparr>heap = empty_heap (0 := \<lparr>orderId = ''O1'', otype = BUY, price = 101,
     quantity = 100, filledQuantity = 50, status = PARTIALLY_FILLED, symbol = ''DEFAULT'',
     clientId = ''DEFAULT''\<rparr>, Suc 0 := \<lparr>orderId = ''O2'', otype = SELL, price
     = 100, quantity = 50, filledQuantity = 50, status = FILLED, symbol = ''DEFAULT'',
     clientId = ''DEFAULT''\<rparr>), nextAddr = Suc (Suc 0), buyOrders = [(101, [0])],
     sellOrders = [], orderMap = [''O1'' \<mapsto> 0], bestBid = 101, bestAsk = 0, bidSize =
     100, askSize = 0, orderCounter = 2, trades = [\<lparr>tradeId = CHR ''T'' #
     string_of_int (dis (g 0)), buyOrderId = ''O1'', sellOrderId = ''O2'', trade_symbol =
     ''DEFAULT'', trade_price = 100, trade_quantity = 50\<rparr>], gen = g, genPos = Suc
     0\<rparr>"
  by (simp add: execute_trade_def book_defs)

lemma session_sell_into_bid:
  "session (init g) [Submit BUY 101 100 ''DEFAULT'' ''DEFAULT'', Submit SELL 100 50
   ''DEFAULT'' ''DEFAULT'']
   = Inr \<lparr>heap = empty_heap (0 := \<lparr>orderId = ''O1'', otype = BUY, price = 101,
     quantity = 100, filledQuantity = 50, status = PARTIALLY_FILLED, symbol = ''DEFAULT'',
     clientId = ''DEFAULT''\<rparr>, Suc 0 := \<lparr>orderId = ''O2'', otype = SELL, price
     = 100, quantity = 50, filledQuantity = 50, status = FILLED, symbol = ''DEFAULT'',
     clientId = ''DEFAULT''\<rparr>), nextAddr = Suc (Suc 0), buyOrders = [(101, [0])],
     sellOrders = [], orderMap = [''O1'' \<mapsto> 0], bestBid = 101, bestAsk = 0, bidSize =
     100, askSize = 0, orderCounter = 2, trades = [\<lparr>tradeId = CHR ''T'' #
     string_of_int (dis (g 0)), buyOrderId = ''O1'', sellOrderId = ''O2'', trade_symbol =
     ''DEFAULT'', trade_price = 100, trade_quantity = 50\<rparr>], gen = g, genPos = Suc
     0\<rparr>"
  by (simp add: session_defs trade_sell_into_bid_1)

lemma trade_time_priority_1:
  "execute_trade
     \<lparr>heap = empty_heap (0 := \<lparr>orderId = ''O1'', otype = SELL, price = 100,
     quantity = 50, filledQuantity = 0, status = PENDING, symbol = ''DEFAULT'', clientId =
     ''DEFAULT''\<rparr>, Suc 0 := \<lparr>orderId = ''O2'', otype = SELL, price = 100,
     quantity = 50, filledQuantity = 0, status = PENDING, symbol = ''DEFAULT'', clientId =
     ''DEFAULT''\<rparr>, Suc (Suc 0) := \<lparr>orderId = ''O3'', otype = BUY, price = 100,
     quantity = 50, filledQuantity = 0, status = PENDING, symbol = ''DEFAULT'', clientId =
     ''DEFAULT''\<rparr>), nextAddr = Suc (Suc (Suc 0)), buyOrders = [], sellOrders = [(100,
     [0, Suc 0])], orderMap = [''O1'' \<mapsto> 0, ''O2'' \<mapsto> Suc 0], bestBid = 0,
     bestAsk = 100, bidSize = 0, askSize = 100, orderCounter = 3, trades = [], gen = g,
     genPos = 0\<rparr>
     (Suc (Suc 0)) 0 50
   = \<lparr>heap = empty_heap (Suc 0 := \<lparr>orderId = ''O2'', otype = SELL, price =
     100, quantity = 50, filledQuantity = 0, status = PENDING, symbol = ''DEFAULT'',
     clientId = ''DEFAULT''\<rparr>, Suc (Suc 0) := \<lparr>orderId = ''O3'', otype = BUY,
     price = 100, quantity = 50, filledQuantity = 50, status = FILLED, symbol = ''DEFAULT'',
     clientId = ''DEFAULT''\<rparr>, 0 := \<lparr>orderId = ''O1'', otype = SELL, price =
     100, quantity = 50, filledQuantity = 50, status = FILLED, symbol = ''DEFAULT'',
     clientId = ''DEFAULT''\<rparr>), nextAddr = Suc (Suc (Suc 0)), buyOrders = [],
     sellOrders = [(100, [Suc 0])], orderMap = [''O2'' \<mapsto> Suc 0], bestBid = 0,
     bestAsk = 100, bidSize = 0, askSize = 50, orderCounter = 3, trades = [\<lparr>tradeId =
     CHR ''T'' # string_of_int (dis (g 0)), buyOrderId = ''O3'', sellOrderId = ''O1'',
     trade_symbol = ''DEFAULT'', trade_price = 100, trade_quantity = 50\<rparr>], gen = g,
     genPos = Suc 0\<rparr>"
  by (simp add: execute_trade_def book_defs)

lemma session_time_priority:
  "session (init g) [Submit SELL 100 50 ''DEFAULT'' ''DEFAULT'', Submit SELL 100 50
   ''DEFAULT'' ''DEFAULT'', Submit BUY 100 50 ''DEFAULT'' ''DEFAULT'']
   = Inr \<lparr>heap = empty_heap (Suc 0 := \<lparr>orderId = ''O2'', otype = SELL, price =
     100, quantity = 50, filledQuantity = 0, status = PENDING, symbol = ''DEFAULT'',
     clientId = ''DEFAULT''\<rparr>, Suc (Suc 0) := \<lparr>orderId = ''O3'', otype = BUY,
     price = 100, quantity = 50, filledQuantity = 50, status = FILLED, symbol = ''DEFAULT'',
     clientId = ''DEFAULT''\<rparr>, 0 := \<lparr>orderId = ''O1'', otype = SELL, price =
     100, quantity = 50, filledQuantity = 50, status = FILLED, symbol = ''DEFAULT'',
     clientId = ''DEFAULT''\<rparr>), nextAddr = Suc (Suc (Suc 0)), buyOrders = [],
     sellOrders = [(100, [Suc 0])], orderMap = [''O2'' \<mapsto> Suc 0], bestBid = 0,
     bestAsk = 100, bidSize = 0, askSize = 50, orderCounter = 3, trades = [\<lparr>tradeId =
     CHR ''T'' # string_of_int (dis (g 0)), buyOrderId = ''O3'', sellOrderId = ''O1'',
     trade_symbol = ''DEFAULT'', trade_price = 100, trade_quantity = 50\<rparr>], gen = g,
     genPos = Suc 0\<rparr>"
  by (simp add: session_defs trade_time_priority_1)

lemma trade_full_cross_1:
  "execute_trade
     \<lparr>heap = empty_heap (0 := \<lparr>orderId = ''O1'', otype = SELL, price = 100,
     quantity = 100, filledQuantity = 0, status = PENDING, symbol = ''DEFAULT'', clientId =
     ''DEFAULT''\<rparr>, Suc 0 := \<lparr>orderId = ''O2'', otype = BUY, price = 101,
     quantity = 100, filledQuantity = 0, status = PENDING, symbol = ''DEFAULT'', clientId =
     ''DEFAULT''\<rparr>), nextAddr = Suc (Suc 0), buyOrders = [], sellOrders = [(100,
     [0])], orderMap = [''O1'' \<mapsto> 0], bestBid = 0, bestAsk = 100, bidSize = 0,
     askSize = 100, orderCounter = 2, trades = [], gen = g, genPos = 0\<rparr>
     (Suc 0) 0 100
   = \<lparr>heap = empty_heap (Suc 0 := \<lparr>orderId = ''O2'', otype = BUY, price = 101,
     quantity = 100, filledQuantity = 100, status = FILLED, symbol = ''DEFAULT'', clientId =
     ''DEFAULT''\<rparr>, 0 := \<lparr>orderId = ''O1'', otype = SELL, price = 100, quantity
     = 100, filledQuantity = 100, status = FILLED, symbol = ''DEFAULT'', clientId =
     ''DEFAULT''\<rparr>), nextAddr = Suc (Suc 0), buyOrders = [], sellOrders = [], orderMap
     = \<lambda>x. None, bestBid = 0, bestAsk = 0, bidSize = 0, askSize = 0, orderCounter =
     2, trades = [\<lparr>tradeId = CHR ''T'' # string_of_int (dis (g 0)), buyOrderId =
     ''O2'', sellOrderId = ''O1'', trade_symbol = ''DEFAULT'', trade_price = 100,
     trade_quantity = 100\<rparr>], gen = g, genPos = Suc 0\<rparr>"
  by (simp add: execute_trade_def book_defs)

lemma session_full_cross:
  "session (init g) [Submit SELL 100 100 ''DEFAULT'' ''DEFAULT'', Submit BUY 101 100
   ''DEFAULT'' ''DEFAULT'']
   = Inl DanglingReference"
  by (simp add: session_defs trade_full_cross_1)

lemma session_resting_both_sides:
  "session (init g) [Submit BUY 99 10 ''DEFAULT'' ''DEFAULT'', Submit SELL 101 10
   ''DEFAULT'' ''DEFAULT'']
   = Inr \<lparr>heap = empty_heap (0 := \<lparr>orderId = ''O1'', otype = BUY, price = 99,
     quantity = 10, filledQuantity = 0, status = PENDING, symbol = ''DEFAULT'', clientId =
     ''DEFAULT''\<rparr>, Suc 0 := \<lparr>orderId = ''O2'', otype = SELL, price = 101,
     quantity = 10, filledQuantity = 0, status = PENDING, symbol = ''DEFAULT'', clientId =
     ''DEFAULT''\<rparr>), nextAddr = Suc (Suc 0), buyOrders = [(99, [0])], sellOrders =
     [(101, [Suc 0])], orderMap = [''O1'' \<mapsto> 0, ''O2'' \<mapsto> Suc 0], bestBid =
     99, bestAsk = 101, bidSize = 10, askSize = 10, orderCounter = 2, trades = [], gen = g,
     genPos = 0\<rparr>"
  by (simp add: session_defs )

lemma session_modify_pending:
  "session (init g) [Submit BUY 100 10 ''DEFAULT'' ''DEFAULT'', Modify ''O1'' 101 10]
   = Inr \<lparr>heap = empty_heap (0 := \<lparr>orderId = ''O1'', otype = BUY, price = 100,
     quantity = 10, filledQuantity = 0, status = CANCELLED, symbol = ''DEFAULT'', clientId =
     ''DEFAULT''\<rparr>, Suc 0 := \<lparr>orderId = ''O1'', otype = BUY, price = 101,
     quantity = 10, filledQuantity = 0, status = PENDING, symbol = ''DEFAULT'', clientId =
     ''DEFAULT''\<rparr>), nextAddr = Suc (Suc 0), buyOrders = [(101, [Suc 0])], sellOrders
     = [], orderMap = [''O1'' \<mapsto> Suc 0], bestBid = 101, bestAsk = 0, bidSize = 10,
     askSize = 0, orderCounter = 1, trades = [], gen = g, genPos = 0\<rparr>"
  by (simp add: session_defs )

lemma session_cancel_resubmit:
  "session (init g) [Submit BUY 100 10 ''DEFAULT'' ''DEFAULT'', Cancel ''O1'', Submit BUY
   101 10 ''DEFAULT'' ''DEFAULT'']
   = Inr \<lparr>heap = empty_heap (0 := \<lparr>orderId = ''O1'', otype = BUY, price = 100,
     quantity = 10, filledQuantity = 0, status = CANCELLED, symbol = ''DEFAULT'', clientId =
     ''DEFAULT''\<rparr>, Suc 0 := \<lparr>orderId = ''O2'', otype = BUY, price = 101,
     quantity = 10, filledQuantity = 0, status = PENDING, symbol = ''DEFAULT'', clientId =
     ''DEFAULT''\<rparr>), nextAddr = Suc (Suc 0), buyOrders = [(101, [Suc 0])], sellOrders
     = [], orderMap = [''O2'' \<mapsto> Suc 0], bestBid = 101, bestAsk = 0, bidSize = 10,
     askSize = 0, orderCounter = 2, trades = [], gen = g, genPos = 0\<rparr>"
  by (simp add: session_defs )


lemma session_single_buy:
  "session (init g) [Submit BUY 100 10 ''DEFAULT'' ''DEFAULT'']
   = Inr \<lparr>heap = empty_heap (0 := \<lparr>orderId = ''O1'', otype = BUY, price = 100,
     quantity = 10, filledQuantity = 0, status = PENDING, symbol = ''DEFAULT'', clientId =
     ''DEFAULT''\<rparr>), nextAddr = Suc 0, buyOrders = [(100, [0])], sellOrders = [],
     orderMap = [''O1'' \<mapsto> 0], bestBid = 100, bestAsk = 0, bidSize = 10, askSize = 0,
     orderCounter = 1, trades = [], gen = g, genPos = 0\<rparr>"
  by (simp add: session_defs)

lemma modify_single_buy:
  "modify_order
     \<lparr>heap = empty_heap (0 := \<lparr>orderId = ''O1'', otype = BUY, price = 100,
     quantity = 10, filledQuantity = 0, status = PENDING, symbol = ''DEFAULT'', clientId =
     ''DEFAULT''\<rparr>), nextAddr = Suc 0, buyOrders = [(100, [0])], sellOrders = [],
     orderMap = [''O1'' \<mapsto> 0], bestBid = 100, bestAsk = 0, bidSize = 10, askSize = 0,
     orderCounter = 1, trades = [], gen = g, genPos = 0\<rparr>
     ''O1'' 101 10
   = Inr (True,
     \<lparr>heap = empty_heap (0 := \<lparr>orderId = ''O1'', otype = BUY, price = 100,
     quantity = 10, filledQuantity = 0, status = CANCELLED, symbol = ''DEFAULT'', clientId =
     ''DEFAULT''\<rparr>, Suc 0 := \<lparr>orderId = ''O1'', otype = BUY, price = 101,
     quantity = 10, filledQuantity = 0, status = PENDING, symbol = ''DEFAULT'', clientId =
     ''DEFAULT''\<rparr>), nextAddr = Suc (Suc 0), buyOrders = [(101, [Suc 0])], sellOrders
     = [], orderMap = [''O1'' \<mapsto> Suc 0], bestBid = 101, bestAsk = 0, bidSize = 10,
     askSize = 0, orderCounter = 1, trades = [], gen = g, genPos = 0\<rparr>)"
  by (simp add: session_defs)

lemma session_single_sell:
  "session (init g) [Submit SELL 100 100 ''DEFAULT'' ''DEFAULT'']
   = Inr \<lparr>heap = empty_heap (0 := \<lparr>orderId = ''O1'', otype = SELL, price = 100,
     quantity = 100, filledQuantity = 0, status = PENDING, symbol = ''DEFAULT'', clientId =
     ''DEFAULT''\<rparr>), nextAddr = Suc 0, buyOrders = [], sellOrders = [(100, [0])],
     orderMap = [''O1'' \<mapsto> 0], bestBid = 0, bestAsk = 100, bidSize = 0, askSize =
     100, orderCounter = 1, trades = [], gen = g, genPos = 0\<rparr>"
  by (simp add: session_defs)

lemma submit_partial_fill:
  "submit_order
     \<lparr>heap = empty_heap (0 := \<lparr>orderId = ''O1'', otype = SELL, price = 100,
     quantity = 100, filledQuantity = 0, status = PENDING, symbol = ''DEFAULT'', clientId =
     ''DEFAULT''\<rparr>), nextAddr = Suc 0, buyOrders = [], sellOrders = [(100, [0])],
     orderMap = [''O1'' \<mapsto> 0], bestBid = 0, bestAsk = 100, bidSize = 0, askSize =
     100, orderCounter = 1, trades = [], gen = g, genPos = 0\<rparr>
     BUY 100 30 ''DEFAULT'' ''DEFAULT''
   = Inr (''O2'',
     \<lparr>heap = empty_heap (Suc 0 := \<lparr>orderId = ''O2'', otype = BUY, price = 100,
     quantity = 30, filledQuantity = 30, status = FILLED, symbol = ''DEFAULT'', clientId =
     ''DEFAULT''\<rparr>, 0 := \<lparr>orderId = ''O1'', otype = SELL, price = 100, quantity
     = 100, filledQuantity = 30, status = PARTIALLY_FILLED, symbol = ''DEFAULT'', clientId =
     ''DEFAULT''\<rparr>), nextAddr = Suc (Suc 0), buyOrders = [], sellOrders = [(100,
     [0])], orderMap = [''O1'' \<mapsto> 0], bestBid = 0, bestAsk = 100, bidSize = 0,
     askSize = 100, orderCounter = 2, trades = [\<lparr>tradeId = CHR ''T'' # string_of_int
     (dis (g 0)), buyOrderId = ''O2'', sellOrderId = ''O1'', trade_symbol = ''DEFAULT'',
     trade_price = 100, trade_quantity = 30\<rparr>], gen = g, genPos = Suc 0\<rparr>)"
  by (simp add: session_defs trade_partial_fill_1)



lemma trade_two_asks_1:
  "execute_trade
     \<lparr>heap = empty_heap (0 := \<lparr>orderId = ''O1'', otype = SELL, price = 100,
     quantity = 30, filledQuantity = 0, status = PENDING, symbol = ''DEFAULT'', clientId =
     ''DEFAULT''\<rparr>, Suc 0 := \<lparr>orderId = ''O2'', otype = SELL, price = 100,
     quantity = 40, filledQuantity = 0, status = PENDING, symbol = ''DEFAULT'', clientId =
     ''DEFAULT''\<rparr>, Suc (Suc 0) := \<lparr>orderId = ''O3'', otype = BUY, price = 100,
     quantity = 100, filledQuantity = 0, status = PENDING, symbol = ''DEFAULT'', clientId =
     ''DEFAULT''\<rparr>), nextAddr = Suc (Suc (Suc 0)), buyOrders = [], sellOrders = [(100,
     [0, Suc 0])], orderMap = [''O1'' \<mapsto> 0, ''O2'' \<mapsto> Suc 0], bestBid = 0,
     bestAsk = 100, bidSize = 0, askSize = 70, orderCounter = 3, trades = [], gen = g, genPos
     = 0\<rparr>
     (Suc (Suc 0)) 0 30
   = \<lparr>heap = empty_heap (Suc 0 := \<lparr>orderId = ''O2'', otype = SELL, price = 100,
     quantity = 40, filledQuantity = 0, status = PENDING, symbol = ''DEFAULT'', clientId =
     ''DEFAULT''\<rparr>, Suc (Suc 0) := \<lparr>orderId = ''O3'', otype = BUY, price = 100,
     quantity = 100, filledQuantity = 30, status = PARTIALLY_FILLED, symbol = ''DEFAULT'',
     clientId = ''DEFAULT''\<rparr>, 0 := \<lparr>orderId = ''O1'', otype = SELL, price =
     100, quantity = 30, filledQuantity = 30, status = FILLED, symbol = ''DEFAULT'', clientId
     = ''DEFAULT''\<rparr>), nextAddr = Suc (Suc (Suc 0)), buyOrders = [], sellOrders =
     [(100, [Suc 0])], orderMap = [''O2'' \<mapsto> Suc 0], bestBid = 0, bestAsk = 100,
     bidSize = 0, askSize = 40, orderCounter = 3, trades = [\<lparr>tradeId = CHR ''T'' #
     string_of_int (dis (g 0)), buyOrderId = ''O3'', sellOrderId = ''O1'', trade_symbol =
     ''DEFAULT'', trade_price = 100, trade_quantity = 30\<rparr>], gen = g, genPos = Suc
     0\<rparr>"
  by (simp add: execute_trade_def book_defs)

lemma trade_two_asks_2:
  "execute_trade
     \<lparr>heap = empty_heap (Suc 0 := \<lparr>orderId = ''O2'', otype = SELL, price = 100,
     quantity = 40, filledQuantity = 0, status = PENDING, symbol = ''DEFAULT'', clientId =
     ''DEFAULT''\<rparr>, Suc (Suc 0) := \<lparr>orderId = ''O3'', otype = BUY, price = 100,
     quantity = 100, filledQuantity = 30, status = PARTIALLY_FILLED, symbol = ''DEFAULT'',
     clientId = ''DEFAULT''\<rparr>, 0 := \<lparr>orderId = ''O1'', otype = SELL, price =
     100, quantity = 30, filledQuantity = 30, status = FILLED, symbol = ''DEFAULT'', clientId
     = ''DEFAULT''\<rparr>), nextAddr = Suc (Suc (Suc 0)), buyOrders = [], sellOrders =
     [(100, [Suc 0])], orderMap = [''O2'' \<mapsto> Suc 0], bestBid = 0, bestAsk = 100,
     bidSize = 0, askSize = 40, orderCounter = 3, trades = [\<lparr>tradeId = CHR ''T'' #
     string_of_int (dis (g 0)), buyOrderId = ''O3'', sellOrderId = ''O1'', trade_symbol =
     ''DEFAULT'', trade_price = 100, trade_quantity = 30\<rparr>], gen = g, genPos = Suc
     0\<rparr>
     (Suc (Suc 0)) (Suc 0) 40
   = \<lparr>heap = empty_heap (0 := \<lparr>orderId = ''O1'', otype = SELL, price = 100,
     quantity = 30, filledQuantity = 30, status = FILLED, symbol = ''DEFAULT'', clientId =
     ''DEFAULT''\<rparr>, Suc (Suc 0) := \<lparr>orderId = ''O3'', otype = BUY, price = 100,
     quantity = 100, filledQuantity = 70, status = PARTIALLY_FILLED, symbol = ''DEFAULT'',
     clientId = ''DEFAULT''\<rparr>, Suc 0 := \<lparr>orderId = ''O2'', otype = SELL, price =
     100, quantity = 40, filledQuantity = 40, status = FILLED, symbol = ''DEFAULT'', clientId
     = ''DEFAULT''\<rparr>), nextAddr = Suc (Suc (Suc 0)), buyOrders = [], sellOrders = [],
     orderMap = \<lambda>x. None, bestBid = 0, bestAsk = 0, bidSize = 0, askSize = 0,
     orderCounter = 3, trades = [\<lparr>tradeId = CHR ''T'' # string_of_int (dis (g 0)),
     buyOrderId = ''O3'', sellOrderId = ''O1'', trade_symbol = ''DEFAULT'', trade_price =
     100, trade_quantity = 30\<rparr>, \<lparr>tradeId = CHR ''T'' # string_of_int (dis (g
     (Suc 0))), buyOrderId = ''O3'', sellOrderId = ''O2'', trade_symbol = ''DEFAULT'',
     trade_price = 100, trade_quantity = 40\<rparr>], gen = g, genPos = Suc (Suc 0)\<rparr>"
  by (simp add: execute_trade_def book_defs)

lemma session_two_asks:
  "session (init g) [Submit SELL 100 30 ''DEFAULT'' ''DEFAULT'',
                    Submit SELL 100 40 ''DEFAULT'' ''DEFAULT'']
   = Inr \<lparr>heap = empty_heap (0 := \<lparr>orderId = ''O1'', otype = SELL, price = 100,
     quantity = 30, filledQuantity = 0, status = PENDING, symbol = ''DEFAULT'', clientId =
     ''DEFAULT''\<rparr>, Suc 0 := \<lparr>orderId = ''O2'', otype = SELL, price = 100,
     quantity = 40, filledQuantity = 0, status = PENDING, symbol = ''DEFAULT'', clientId =
     ''DEFAULT''\<rparr>), nextAddr = Suc (Suc 0), buyOrders = [], sellOrders = [(100, [0,
     Suc 0])], orderMap = [''O1'' \<mapsto> 0, ''O2'' \<mapsto> Suc 0], bestBid = 0, bestAsk
     = 100, bidSize = 0, askSize = 70, orderCounter = 2, trades = [], gen = g, genPos =
     0\<rparr>"
  by (simp add: session_defs)

lemma submit_two_asks_stops:
  "submit_order
     \<lparr>heap = empty_heap (0 := \<lparr>orderId = ''O1'', otype = SELL, price = 100,
     quantity = 30, filledQuantity = 0, status = PENDING, symbol = ''DEFAULT'', clientId =
     ''DEFAULT''\<rparr>, Suc 0 := \<lparr>orderId = ''O2'', otype = SELL, price = 100,
     quantity = 40, filledQuantity = 0, status = PENDING, symbol = ''DEFAULT'', clientId =
     ''DEFAULT''\<rparr>), nextAddr = Suc (Suc 0), buyOrders = [], sellOrders = [(100, [0,
     Suc 0])], orderMap = [''O1'' \<mapsto> 0, ''O2'' \<mapsto> Suc 0], bestBid = 0, bestAsk
     = 100, bidSize = 0, askSize = 70, orderCounter = 2, trades = [], gen = g, genPos =
     0\<rparr>
     BUY 100 100 ''DEFAULT'' ''DEFAULT''
   = Inl DanglingReference"
  by (simp add: session_defs trade_two_asks_1 trade_two_asks_2)

lemma submit_halt_two_asks:
  "submit_halt
     \<lparr>heap = empty_heap (0 := \<lparr>orderId = ''O1'', otype = SELL, price = 100,
     quantity = 30, filledQuantity = 0, status = PENDING, symbol = ''DEFAULT'', clientId =
     ''DEFAULT''\<rparr>, Suc 0 := \<lparr>orderId = ''O2'', otype = SELL, price = 100,
     quantity = 40, filledQuantity = 0, status = PENDING, symbol = ''DEFAULT'', clientId =
     ''DEFAULT''\<rparr>), nextAddr = Suc (Suc 0), buyOrders = [], sellOrders = [(100, [0,
     Suc 0])], orderMap = [''O1'' \<mapsto> 0, ''O2'' \<mapsto> Suc 0], bestBid = 0, bestAsk
     = 100, bidSize = 0, askSize = 70, orderCounter = 2, trades = [], gen = g, genPos =
     0\<rparr>
     BUY 100 100 ''DEFAULT'' ''DEFAULT''
   = \<lparr>heap = empty_heap (0 := \<lparr>orderId = ''O1'', otype = SELL, price = 100,
     quantity = 30, filledQuantity = 30, status = FILLED, symbol = ''DEFAULT'', clientId =
     ''DEFAULT''\<rparr>, Suc (Suc 0) := \<lparr>orderId = ''O3'', otype = BUY, price = 100,
     quantity = 100, filledQuantity = 70, status = PARTIALLY_FILLED, symbol = ''DEFAULT'',
     clientId = ''DEFAULT''\<rparr>, Suc 0 := \<lparr>orderId = ''O2'', otype = SELL, price =
     100, quantity = 40, filledQuantity = 40, status = FILLED, symbol = ''DEFAULT'', clientId
     = ''DEFAULT''\<rparr>), nextAddr = Suc (Suc (Suc 0)), buyOrders = [], sellOrders = [],
     orderMap = \<lambda>x. None, bestBid = 0, bestAsk = 0, bidSize = 0, askSize = 0,
     orderCounter = 3, trades = [\<lparr>tradeId = CHR ''T'' # string_of_int (dis (g 0)),
     buyOrderId = ''O3'', sellOrderId = ''O1'', trade_symbol = ''DEFAULT'', trade_price =
     100, trade_quantity = 30\<rparr>, \<lparr>tradeId = CHR ''T'' # string_of_int (dis (g
     (Suc 0))), buyOrderId = ''O3'', sellOrderId = ''O2'', trade_symbol = ''DEFAULT'',
     trade_price = 100, trade_quantity = 40\<rparr>], gen = g, genPos = Suc (Suc 0)\<rparr>"
  by (simp add: session_defs halt_defs trade_two_asks_1 trade_two_asks_2)
section \<open>Validation in submit_order\<close>

text \<open>
  C9 (as the code has it). A submit with price \<open>\<le> 0\<close> or quantity \<open>\<le> 0\<close> fails by returning
  the empty order id, the one failure value of submit_order, whichever of the two checks
  failed; the engine state after the call is the state before it: no order id is
  consumed, no trade is emitted, the book is untouched.
\<close>

theorem submit_invalid_no_effect:
  "q \<le> 0 \<or> p \<le> 0 \<Longrightarrow> submit_order s ty p q sy client = Inr ([], s)"
  by (simp add: submit_order_def)

theorem submit_invalid_no_effect_witness:
  "((10::int) \<le> 0 \<or> (0::real) \<le> 0)
   \<and> submit_order (init id) BUY 0 10 ''DEFAULT'' ''DEFAULT'' = Inr ([], init id)"
  using submit_invalid_no_effect [of 10 0 "init id" BUY "''DEFAULT''" "''DEFAULT''"] by simp

text \<open>
  The claim as written names two different errors. An invalid price and an invalid
  quantity produce the same result.
\<close>

theorem submit_invalid_same_result:
  "submit_order (init id) BUY 0 10 ''DEFAULT'' ''DEFAULT''
   = submit_order (init id) BUY 10 0 ''DEFAULT'' ''DEFAULT''"
  by (simp add: submit_order_def)

section \<open>The book is never crossed\<close>

text \<open>
  C3. In every state that a session reaches (after every submit, cancel and modify that
  returns), if both ladders are non-empty then the highest bid price is strictly below
  the lowest ask price.
\<close>

theorem no_crossed_book:
  assumes "reachable s" "buyOrders s \<noteq> []" "sellOrders s \<noteq> []"
  shows "Max (fst ` set (buyOrders s)) < Min (fst ` set (sellOrders s))"
proof -
  have nc: "uncrossed s" using reachable_no_cross [OF assms(1)] by (simp add: no_cross_def)
  have "Max (fst ` set (buyOrders s)) \<in> fst ` set (buyOrders s)"
    using assms(2) by (intro Max_in) auto
  then have b: "Max (fst ` set (buyOrders s)) \<in> set (map fst (buyOrders s))"
    by (simp only: set_map)
  have "Min (fst ` set (sellOrders s)) \<in> fst ` set (sellOrders s)"
    using assms(3) by (intro Min_in) auto
  then have a: "Min (fst ` set (sellOrders s)) \<in> set (map fst (sellOrders s))"
    by (simp only: set_map)
  from nc b a show ?thesis unfolding uncrossed_def by blast
qed

theorem no_crossed_book_witness:
  "\<exists>s. session (init id) [Submit BUY 99 10 ''DEFAULT'' ''DEFAULT'',
                             Submit SELL 101 10 ''DEFAULT'' ''DEFAULT''] = Inr s
       \<and> reachable s \<and> buyOrders s = [(99, [0])] \<and> sellOrders s = [(101, [1])]
       \<and> Max (fst ` set (buyOrders s)) < Min (fst ` set (sellOrders s))"
proof -
  obtain s where run: "session (init id) [Submit BUY 99 10 ''DEFAULT'' ''DEFAULT'',
                             Submit SELL 101 10 ''DEFAULT'' ''DEFAULT''] = Inr s"
    and b: "buyOrders s = [(99, [0])]" and a: "sellOrders s = [(101, [1])]"
    by (simp add: session_resting_both_sides)
  have r: "reachable s" unfolding reachable_def using run by blast
  have "Max (fst ` set (buyOrders s)) < Min (fst ` set (sellOrders s))"
    by (rule no_crossed_book [OF r]) (simp_all add: a b)
  with run r a b show ?thesis by blast
qed

section \<open>Time priority\<close>

text \<open>
  C2. On a new engine, after submit(SELL, 100, 50) [A, order O1 at address 0],
  submit(SELL, 100, 50) [B, order O2 at address 1] and submit(BUY, 100, 50) [O3], the
  session returns, exactly one trade has been emitted, it is between O3 and A for 50 at
  100, and B is still resting alone at price 100: it is in the ask ladder and in the
  index, untouched, with 50 remaining. A is gone from the ladder and the index.
\<close>

theorem time_priority_successor_intact:
  "\<exists>s. session (init g) [Submit SELL 100 50 ''DEFAULT'' ''DEFAULT'',
                          Submit SELL 100 50 ''DEFAULT'' ''DEFAULT'',
                          Submit BUY 100 50 ''DEFAULT'' ''DEFAULT''] = Inr s
       \<and> length (trades s) = 1
       \<and> buyOrderId (hd (trades s)) = ''O3'' \<and> sellOrderId (hd (trades s)) = ''O1''
       \<and> trade_price (hd (trades s)) = 100 \<and> trade_quantity (hd (trades s)) = 50
       \<and> sellOrders s = [(100, [1])] \<and> buyOrders s = []
       \<and> orderMap s ''O2'' = Some 1 \<and> orderMap s ''O1'' = None
       \<and> heap s 1 = new_Order ''O2'' SELL 100 50 ''DEFAULT'' ''DEFAULT''
       \<and> getRemainingQuantity (heap s 1) = 50
       \<and> isFullyFilled (heap s 0)"
  by (simp add: session_time_priority new_Order_def getRemainingQuantity_def isFullyFilled_def)

section \<open>The cached market data after a partial fill\<close>

text \<open>
  C6 (the code at the failing input). After submit(SELL, 100, 100) and
  submit(BUY, 100, 30) the resting sell has 70 remaining, and a fresh scan
  (update_market_data) gives an ask size of 70, but the cached askSize is still 100:
  execute_trade refreshes the projections only through remove_order, which a partial
  fill of the resting order does not reach.
\<close>

theorem ask_size_stale_after_partial_fill:
  "\<exists>s. session (init g) [Submit SELL 100 100 ''DEFAULT'' ''DEFAULT'',
                          Submit BUY 100 30 ''DEFAULT'' ''DEFAULT''] = Inr s
       \<and> sellOrders s = [(100, [0])]
       \<and> level_size (heap s) (snd (hd (sellOrders s))) = 70
       \<and> askSize (update_market_data s) = 70
       \<and> askSize s = 100"
  by (simp add: session_partial_fill update_market_data_def level_size_def wrap32_def
        getRemainingQuantity_def)

section \<open>The price of a trade\<close>

text \<open>
  C1 (the code at the failing input). A BUY for 100 at 101 rests (O1); a SELL for 50 at
  100 then matches it. The one trade emitted is between O1 and O2 and its price is 100,
  the price of the incoming sell order, not 101, the price of the resting buy order:
  execute_trade always takes the price of its sellOrder argument.
\<close>

theorem sell_aggressor_trades_at_own_price:
  "\<exists>s. session (init g) [Submit BUY 101 100 ''DEFAULT'' ''DEFAULT'',
                          Submit SELL 100 50 ''DEFAULT'' ''DEFAULT''] = Inr s
       \<and> length (trades s) = 1
       \<and> buyOrderId (hd (trades s)) = ''O1'' \<and> sellOrderId (hd (trades s)) = ''O2''
       \<and> trade_price (hd (trades s)) = 100
       \<and> buyOrders s = [(101, [0])] \<and> orderId (heap s 0) = ''O1''
       \<and> price (heap s 0) = 101"
  by (simp add: session_sell_into_bid)

section \<open>modify_order and the status of the order\<close>

text \<open>
  C10. modify_order on an id that is not in the book, or whose order has a status other
  than PENDING (a PARTIALLY_FILLED order still resting included), returns false and
  leaves the whole engine state as it was; and whenever modify_order returns true, the
  id was in the book with status PENDING.
\<close>

theorem modify_only_pending:
  "((\<forall>a. get_order s oid = Some a \<longrightarrow> status (heap s a) \<noteq> PENDING)
      \<longrightarrow> modify_order s oid p q = Inr (False, s))
   \<and> (modify_order s oid p q = Inr (True, s')
      \<longrightarrow> (\<exists>a. get_order s oid = Some a \<and> status (heap s a) = PENDING))"
  by (auto simp: modify_order_def Let_def split_def split: option.splits sum.splits if_splits)

theorem modify_only_pending_witness:
  "(\<exists>s. session (init id) [Submit SELL 100 100 ''DEFAULT'' ''DEFAULT'',
                            Submit BUY 100 30 ''DEFAULT'' ''DEFAULT''] = Inr s
        \<and> sellOrders s = [(100, [0])] \<and> get_order s ''O1'' = Some 0
        \<and> status (heap s 0) = PARTIALLY_FILLED
        \<and> modify_order s ''O1'' 105 10 = Inr (False, s))
   \<and> (\<exists>s s'. session (init id) [Submit BUY 100 10 ''DEFAULT'' ''DEFAULT''] = Inr s
        \<and> modify_order s ''O1'' 101 10 = Inr (True, s')
        \<and> get_order s ''O1'' = Some 0 \<and> status (heap s 0) = PENDING)"
proof
  obtain s where run: "session (init id) [Submit SELL 100 100 ''DEFAULT'' ''DEFAULT'',
                            Submit BUY 100 30 ''DEFAULT'' ''DEFAULT''] = Inr s"
    and f: "sellOrders s = [(100, [0])]" "get_order s ''O1'' = Some 0"
      "status (heap s 0) = PARTIALLY_FILLED"
    by (simp add: session_partial_fill get_order_def)
  have "\<forall>a. get_order s ''O1'' = Some a \<longrightarrow> status (heap s a) \<noteq> PENDING"
    using f by simp
  with modify_only_pending [of s "''O1''" 105 10]
  have "modify_order s ''O1'' 105 10 = Inr (False, s)" by blast
  with run f show "\<exists>s. session (init id) [Submit SELL 100 100 ''DEFAULT'' ''DEFAULT'',
                            Submit BUY 100 30 ''DEFAULT'' ''DEFAULT''] = Inr s
        \<and> sellOrders s = [(100, [0])] \<and> get_order s ''O1'' = Some 0
        \<and> status (heap s 0) = PARTIALLY_FILLED
        \<and> modify_order s ''O1'' 105 10 = Inr (False, s)" by blast
next
  obtain s s' where run: "session (init id) [Submit BUY 100 10 ''DEFAULT'' ''DEFAULT''] = Inr s"
    and m: "modify_order s ''O1'' 101 10 = Inr (True, s')"
    using session_single_buy [of id] modify_single_buy [of id] by blast
  from modify_only_pending [of s "''O1''" 101 10 s'] m
  obtain a where a: "get_order s ''O1'' = Some a" "status (heap s a) = PENDING" by blast
  have "get_order s ''O1'' = Some 0"
    using run by (auto simp: session_single_buy get_order_def)
  with a have "get_order s ''O1'' = Some 0 \<and> status (heap s 0) = PENDING" by simp
  with run m show "\<exists>s s'. session (init id) [Submit BUY 100 10 ''DEFAULT'' ''DEFAULT''] = Inr s
        \<and> modify_order s ''O1'' 101 10 = Inr (True, s')
        \<and> get_order s ''O1'' = Some 0 \<and> status (heap s 0) = PENDING" by blast
qed

section \<open>Conservation of quantity\<close>

text \<open>
  C4. For every valid submit, in any state a session reaches, and however its matching
  run ends. H is the state of the engine when the run stops: at the exit of the loop, or
  at the read of the destroyed front-slot reference in the turn whose trade emptied a
  level (a full cross, a sweep, a fill that leaves a residual of the incoming order). The
  trades the run emits are appended to the output; the sum of their quantities equals the
  submitted quantity minus what remains of the new order in H, and also equals the total
  by which the remaining quantities of the orders that existed before the call went down.
  (The new order is the object at the address \<open>nextAddr s\<close>.) Where submit_order returns,
  the state it returns has the trades and the orders of H and the new order carries the
  returned id; where it does not return, the run has emitted at least one trade.
\<close>

theorem conservation_of_quantity:
  assumes re: "reachable s" and valid: "0 < q" "0 < p"
    and halt: "H = submit_halt s ty p q sy client"
  shows "\<exists>new. trades H = trades s @ new
          \<and> quantity (heap H (nextAddr s)) = q
          \<and> sum_list (map trade_quantity new) = q - getRemainingQuantity (heap H (nextAddr s))
          \<and> sum_list (map trade_quantity new)
              = (\<Sum>a<nextAddr s. getRemainingQuantity (heap s a)
                                  - getRemainingQuantity (heap H a))
          \<and> (\<forall>oid s'. submit_order s ty p q sy client = Inr (oid, s')
                \<longrightarrow> trades s' = trades H \<and> heap s' = heap H
                    \<and> orderId (heap s' (nextAddr s)) = oid)
          \<and> (\<forall>e. submit_order s ty p q sy client = Inl e \<longrightarrow> new \<noteq> [])"
proof -
  let ?n = "nextAddr s"
  define oid0 where "oid0 = fst (generate_order_id s)"
  define s2 where "s2 = snd (alloc (snd (generate_order_id s)) (new_Order oid0 ty p q sy client))"
  have h2: "heap s2 = (heap s)(?n := new_Order oid0 ty p q sy client)"
    and t2: "trades s2 = trades s"
    and l2: "buyOrders s2 = buyOrders s" "sellOrders s2 = sellOrders s"
    by (simp_all add: s2_def alloc_def generate_order_id_def)
  have new2: "otype (heap s2 ?n) = ty" "quantity (heap s2 ?n) = q" "orderId (heap s2 ?n) = oid0"
    "filledQuantity (heap s2 ?n) = 0"
    by (simp_all add: h2 new_Order_def)
  have H: "H = match_halt ty s2 ?n"
    using valid new2
    by (simp add: halt submit_halt_def match_order_halt_def Let_def split_def s2_def oid0_def
          alloc_def generate_order_id_def new_Order_def)
  have sub: "submit_order s ty p q sy client =
      (case match_loop ty s2 ?n of
         Inl e \<Rightarrow> Inl e
       | Inr s1 \<Rightarrow> Inr (oid0, if getRemainingQuantity (heap s1 ?n) > 0 then add_order s1 ?n else s1))"
    using valid new2
    by (simp add: submit_order_def match_order_def Let_def split_def s2_def oid0_def
          alloc_def generate_order_id_def new_Order_def split: sum.splits)
  have "ladder_addrs (opp_levels ty s2) \<subseteq> {..<?n}"
    using reachable_closed [OF re] by (auto simp: book_closed_def l2 opp_levels_def)
  from match_halt_conserves [OF this le_refl] obtain new where
    new: "trades H = trades s2 @ new"
      "traded new = filledQuantity (heap H ?n) - filledQuantity (heap s2 ?n)"
      "traded new = filled_below ?n H - filled_below ?n s2"
    unfolding H by blast
  have st: "\<And>a. static (heap H a) = static (heap s2 a)"
    unfolding H by (rule match_halt_static)
  have id: "orderId (heap H ?n) = oid0" and qn: "quantity (heap H ?n) = q"
    using static_fields [OF st [of ?n]] new2 by simp_all
  have 1: "traded new = q - getRemainingQuantity (heap H ?n)"
    using new(2) new2(4) qn by (simp add: getRemainingQuantity_def)
  have qa: "quantity (heap H a) = quantity (heap s a)" if "a < ?n" for a
  proof -
    have "quantity (heap H a) = quantity (heap s2 a)"
      using static_fields [OF st [of a]] by simp
    with that show ?thesis by (simp add: h2)
  qed
  have "filled_below ?n s2 = filled_below ?n s"
    unfolding filled_below_def h2 by (rule sum_below_upd_out) simp
  then have "traded new = (\<Sum>a<?n. filledQuantity (heap H a)) - (\<Sum>a<?n. filledQuantity (heap s a))"
    using new(3) by (simp add: filled_below_def)
  also have "\<dots> = (\<Sum>a<?n. filledQuantity (heap H a) - filledQuantity (heap s a))"
    by (simp add: sum_subtractf)
  also have "\<dots> = (\<Sum>a<?n. getRemainingQuantity (heap s a) - getRemainingQuantity (heap H a))"
    by (rule sum.cong) (simp_all add: getRemainingQuantity_def qa)
  finally have 2: "traded new = (\<Sum>a<?n. getRemainingQuantity (heap s a)
                                  - getRemainingQuantity (heap H a))" .
  have 3: "trades s' = trades H \<and> heap s' = heap H \<and> orderId (heap s' ?n) = oid"
    if run: "submit_order s ty p q sy client = Inr (oid, s')" for oid s'
  proof -
    from run sub obtain s1 where loop: "match_loop ty s2 ?n = Inr s1"
      and s': "s' = (if getRemainingQuantity (heap s1 ?n) > 0 then add_order s1 ?n else s1)"
      and oid: "oid = oid0"
      by (auto split: sum.splits)
    have "H = s1" unfolding H by (rule match_loop_halt [OF loop])
    with s' oid id show ?thesis by simp
  qed
  have 4: "new \<noteq> []" if died: "submit_order s ty p q sy client = Inl e" for e
  proof -
    from died sub have "match_loop ty s2 ?n = Inl e" by (auto split: sum.splits)
    from match_loop_stops_after_trade [OF this] new(1) show ?thesis
      unfolding H by auto
  qed
  have A: "trades H = trades s @ new" using new(1) t2 by simp
  have B: "sum_list (map trade_quantity new) = q - getRemainingQuantity (heap H ?n)"
    using 1 by (simp add: traded_def)
  have C: "sum_list (map trade_quantity new)
      = (\<Sum>a<?n. getRemainingQuantity (heap s a) - getRemainingQuantity (heap H a))"
    using 2 by (simp add: traded_def)
  have D: "\<forall>oid s'. submit_order s ty p q sy client = Inr (oid, s')
                \<longrightarrow> trades s' = trades H \<and> heap s' = heap H
                    \<and> orderId (heap s' ?n) = oid"
    using 3 by blast
  have E: "\<forall>e. submit_order s ty p q sy client = Inl e \<longrightarrow> new \<noteq> []"
    using 4 by blast
  show ?thesis
    by (rule exI [of _ new]) (rule conjI A qn B C D E)+
qed

theorem conservation_of_quantity_witness:
  "(\<exists>s H new. session (init id) [Submit SELL 100 30 ''DEFAULT'' ''DEFAULT'',
                                  Submit SELL 100 40 ''DEFAULT'' ''DEFAULT''] = Inr s
       \<and> submit_order s BUY 100 100 ''DEFAULT'' ''DEFAULT'' = Inl DanglingReference
       \<and> H = submit_halt s BUY 100 100 ''DEFAULT'' ''DEFAULT''
       \<and> trades H = trades s @ new \<and> map trade_quantity new = [30, 40]
       \<and> sum_list (map trade_quantity new) = 70
       \<and> getRemainingQuantity (heap H (nextAddr s)) = 30
       \<and> 100 - getRemainingQuantity (heap H (nextAddr s)) = 70
       \<and> (\<Sum>a<nextAddr s. getRemainingQuantity (heap s a) - getRemainingQuantity (heap H a)) = 70)
   \<and> (\<exists>s s' new. session (init id) [Submit SELL 100 100 ''DEFAULT'' ''DEFAULT''] = Inr s
       \<and> submit_order s BUY 100 30 ''DEFAULT'' ''DEFAULT'' = Inr (''O2'', s')
       \<and> trades s' = trades s @ new \<and> map trade_quantity new = [30]
       \<and> getRemainingQuantity (heap s' (nextAddr s)) = 0
       \<and> (\<Sum>a<nextAddr s. getRemainingQuantity (heap s a) - getRemainingQuantity (heap s' a)) = 30)"
proof -
  have valid: "0 < (100::int)" "0 < (100::real)" "0 < (30::int)" by simp_all
  obtain s H where run: "session (init id) [Submit SELL 100 30 ''DEFAULT'' ''DEFAULT'',
                                  Submit SELL 100 40 ''DEFAULT'' ''DEFAULT''] = Inr s"
    and stop: "submit_order s BUY 100 100 ''DEFAULT'' ''DEFAULT'' = Inl DanglingReference"
    and H: "H = submit_halt s BUY 100 100 ''DEFAULT'' ''DEFAULT''"
    and n: "nextAddr s = 2" and t: "trades s = []" "map trade_quantity (trades H) = [30, 40]"
    and r: "getRemainingQuantity (heap H 2) = 30"
    using session_two_asks [of id] submit_two_asks_stops [of id] submit_halt_two_asks [of id]
    by (simp add: getRemainingQuantity_def)
  have re: "reachable s" unfolding reachable_def using run by blast
  from conservation_of_quantity [OF re valid(1,2) H] obtain new where
    new: "trades H = trades s @ new"
      "sum_list (map trade_quantity new) = 100 - getRemainingQuantity (heap H (nextAddr s))"
      "sum_list (map trade_quantity new)
         = (\<Sum>a<nextAddr s. getRemainingQuantity (heap s a) - getRemainingQuantity (heap H a))"
    by blast
  from new(1) t have q: "map trade_quantity new = [30, 40]" by simp
  have 1: "\<exists>s H new. session (init id) [Submit SELL 100 30 ''DEFAULT'' ''DEFAULT'',
                                  Submit SELL 100 40 ''DEFAULT'' ''DEFAULT''] = Inr s
       \<and> submit_order s BUY 100 100 ''DEFAULT'' ''DEFAULT'' = Inl DanglingReference
       \<and> H = submit_halt s BUY 100 100 ''DEFAULT'' ''DEFAULT''
       \<and> trades H = trades s @ new \<and> map trade_quantity new = [30, 40]
       \<and> sum_list (map trade_quantity new) = 70
       \<and> getRemainingQuantity (heap H (nextAddr s)) = 30
       \<and> 100 - getRemainingQuantity (heap H (nextAddr s)) = 70
       \<and> (\<Sum>a<nextAddr s. getRemainingQuantity (heap s a) - getRemainingQuantity (heap H a)) = 70"
    using run stop H new q n r
    by (intro exI [of _ s] exI [of _ H] exI [of _ new]) simp
  obtain u u' where run': "session (init id) [Submit SELL 100 100 ''DEFAULT'' ''DEFAULT''] = Inr u"
    and sub: "submit_order u BUY 100 30 ''DEFAULT'' ''DEFAULT'' = Inr (''O2'', u')"
    and n': "nextAddr u = 1" and t': "trades u = []" "map trade_quantity (trades u') = [30]"
    and r': "getRemainingQuantity (heap u' 1) = 0"
    using session_single_sell [of id] submit_partial_fill [of id]
    by (simp add: getRemainingQuantity_def)
  have re': "reachable u" unfolding reachable_def using run' by blast
  from conservation_of_quantity [OF re' valid(3,2) refl] obtain new' where
    new': "trades (submit_halt u BUY 100 30 ''DEFAULT'' ''DEFAULT'') = trades u @ new'"
      "sum_list (map trade_quantity new')
         = (\<Sum>a<nextAddr u. getRemainingQuantity (heap u a)
               - getRemainingQuantity (heap (submit_halt u BUY 100 30 ''DEFAULT'' ''DEFAULT'') a))"
      "\<forall>oid s'. submit_order u BUY 100 30 ''DEFAULT'' ''DEFAULT'' = Inr (oid, s')
          \<longrightarrow> trades s' = trades (submit_halt u BUY 100 30 ''DEFAULT'' ''DEFAULT'')
              \<and> heap s' = heap (submit_halt u BUY 100 30 ''DEFAULT'' ''DEFAULT'')
              \<and> orderId (heap s' (nextAddr u)) = oid"
    by blast
  from new'(3) sub have eq: "trades u' = trades (submit_halt u BUY 100 30 ''DEFAULT'' ''DEFAULT'')"
    "heap u' = heap (submit_halt u BUY 100 30 ''DEFAULT'' ''DEFAULT'')"
    by blast+
  have tn: "trades u' = trades u @ new'" using new'(1) eq(1) by simp
  with t' have q': "map trade_quantity new' = [30]" by simp
  have sm: "(\<Sum>a<nextAddr u. getRemainingQuantity (heap u a) - getRemainingQuantity (heap u' a)) = 30"
    using new'(2) q' eq(2) by simp
  have 2: "\<exists>s s' new. session (init id) [Submit SELL 100 100 ''DEFAULT'' ''DEFAULT''] = Inr s
       \<and> submit_order s BUY 100 30 ''DEFAULT'' ''DEFAULT'' = Inr (''O2'', s')
       \<and> trades s' = trades s @ new \<and> map trade_quantity new = [30]
       \<and> getRemainingQuantity (heap s' (nextAddr s)) = 0
       \<and> (\<Sum>a<nextAddr s. getRemainingQuantity (heap s a) - getRemainingQuantity (heap s' a)) = 30"
    using run' sub tn q' n' r' sm
    by (intro exI [of _ u] exI [of _ u'] exI [of _ new']) simp
  from 1 2 show ?thesis by (rule conjI)
qed


section \<open>Trade identifiers\<close>

text \<open>
  C5 (as the code has it). generate_trade_id has no counter: every trade id emitted in a
  session is the letter T followed by the six decimal digits of a number between 100000
  and 999999 drawn from the random generator. Nothing orders the ids or keeps them
  apart.
\<close>

theorem trade_ids_are_random_draws:
  assumes "reachable s" "tr \<in> set (trades s)"
  shows "\<exists>n. 100000 \<le> n \<and> n \<le> 999999 \<and> tradeId tr = ''T'' @ digits n
             \<and> length (digits n) = 6 \<and> set (digits n) \<subseteq> set ''0123456789''"
proof -
  have "trade_ids_drawn s"
  proof (rule reachable_invariant [where P = trade_ids_drawn, OF _ _ _ _ assms(1)])
    fix x oid ty p q sy client x'
    assume "trade_ids_drawn x"
      "match_order (snd (alloc x (new_Order oid ty p q sy client))) (nextAddr x) = Inr x'"
    moreover from this(1) have "trade_ids_drawn (snd (alloc x (new_Order oid ty p q sy client)))"
      by (simp add: trade_ids_drawn_def alloc_def)
    ultimately show "trade_ids_drawn x'" using match_order_ids_drawn by blast
  next
    fix x oid assume "trade_ids_drawn x"
    then show "trade_ids_drawn (snd (cancel_order x oid))" by (simp add: trade_ids_drawn_def)
  next
    fix x assume "trade_ids_drawn x"
    then show "trade_ids_drawn (snd (generate_order_id x))"
      by (simp add: trade_ids_drawn_def generate_order_id_def)
  next
    fix g show "trade_ids_drawn (init g)" by (simp add: trade_ids_drawn_def init_def)
  qed
  with assms(2) obtain n where n: "100000 \<le> n" "n \<le> 999999" "tradeId tr = ''T'' @ digits n"
    unfolding trade_ids_drawn_def by blast
  have "length (digits n) \<le> 6" using n(2) by (intro digits_length_le) simp_all
  moreover have "5 < length (digits n)" using n(1) by (intro digits_length_gt) simp
  ultimately have "length (digits n) = 6" by simp
  with n digits_decimal [of n] show ?thesis by blast
qed

theorem trade_ids_are_random_draws_witness:
  "\<exists>s tr. session (init id) [Submit SELL 100 100 ''DEFAULT'' ''DEFAULT'',
                               Submit BUY 100 30 ''DEFAULT'' ''DEFAULT''] = Inr s
       \<and> reachable s \<and> tr \<in> set (trades s) \<and> tradeId tr = ''T100000''
       \<and> (\<exists>n. 100000 \<le> n \<and> n \<le> 999999 \<and> tradeId tr = ''T'' @ digits n
             \<and> length (digits n) = 6 \<and> set (digits n) \<subseteq> set ''0123456789'')"
proof -
  obtain s tr where run: "session (init id) [Submit SELL 100 100 ''DEFAULT'' ''DEFAULT'',
                               Submit BUY 100 30 ''DEFAULT'' ''DEFAULT''] = Inr s"
    and tr: "tr \<in> set (trades s)" "tradeId tr = ''T100000''"
    using session_partial_fill [of id]
    by (simp add: string_of_int_def dis_def digits.simps digit_char_def)
  have re: "reachable s" unfolding reachable_def using run by blast
  from trade_ids_are_random_draws [OF re tr(1)] run re tr show ?thesis by blast
qed

text \<open>
  The claim as written says that successive trade ids increase strictly. With a
  generator whose draws repeat, two successive trades of one session carry the same id.
\<close>

theorem trade_ids_repeat:
  "map tradeId (trades (projr (session (init constant_draws)
       [Submit SELL 100 100 ''DEFAULT'' ''DEFAULT'', Submit BUY 100 30 ''DEFAULT'' ''DEFAULT'',
        Submit BUY 100 30 ''DEFAULT'' ''DEFAULT''])))
   = [''T100007'', ''T100007'']"
  by (simp add: session_two_partial_fills constant_draws_def string_of_int_def dis_def
        digits.simps digit_char_def)

section \<open>What cancel_order reports\<close>




section \<open>modify_order as cancel and reissue\<close>

text \<open>
  C7 (as the code has it). For an id that is not in the book, or whose order is PENDING,
  modify_order(id, p, q) does what cancel(id) followed by the reissue of the order does:
  the reissued order keeps the id, side, symbol and client, takes the new price and
  quantity as they are (there is no validation and no new id from the counter), and is
  matched like a submitted order. When the id is not in the book, modify fails as cancel
  does (false) and changes nothing. After a successful modify in a state a session
  reaches, the order found under the id, if any, is a new object (at the address that
  was unused before the call), it has the new price, and it is the last entry in the
  queue of its price level: every order already resting at that price is ahead of it.
\<close>

theorem modify_is_cancel_then_reissue:
  "((get_order s oid = None \<or> (\<exists>a. get_order s oid = Some a \<and> status (heap s a) = PENDING))
      \<longrightarrow> modify_order s oid p q = cancel_then_reissue s oid p q)
   \<and> (get_order s oid = None
      \<longrightarrow> modify_order s oid p q = Inr (False, s) \<and> cancel_order s oid = (False, s))
   \<and> (reachable s \<and> modify_order s oid p q = Inr (True, s') \<and> orderMap s' oid = Some a'
      \<longrightarrow> a' = nextAddr s \<and> orderId (heap s' a') = oid \<and> price (heap s' a') = p
          \<and> (\<exists>v. map_of (if otype (heap s' a') = BUY then buyOrders s' else sellOrders s') p
                   = Some (v @ [a'])))"
proof (intro conjI impI)
  assume "get_order s oid = None \<or> (\<exists>a. get_order s oid = Some a \<and> status (heap s a) = PENDING)"
  then show "modify_order s oid p q = cancel_then_reissue s oid p q"
  proof
    assume "get_order s oid = None"
    then show ?thesis by (simp add: modify_order_def cancel_then_reissue_def)
  next
    assume "\<exists>a. get_order s oid = Some a \<and> status (heap s a) = PENDING"
    then obtain a where a: "get_order s oid = Some a" "status (heap s a) = PENDING" by blast
    from modify_order_pending [OF a] a(1) show ?thesis
      by (simp add: cancel_then_reissue_def)
  qed
next
  assume "get_order s oid = None"
  then show "modify_order s oid p q = Inr (False, s)" "cancel_order s oid = (False, s)"
    by (simp_all add: modify_order_def cancel_order_def get_order_def)
next
  assume m: "reachable s \<and> modify_order s oid p q = Inr (True, s') \<and> orderMap s' oid = Some a'"
  then obtain a where a: "get_order s oid = Some a" "status (heap s a) = PENDING"
    by (auto simp: modify_order_def split: option.splits if_splits)
  define s1 where "s1 = snd (cancel_order s oid)"
  let ?ty = "otype (heap s a)"
  from m modify_order_pending(1) [OF a, of p q]
  have run: "reissue s1 oid ?ty p q (symbol (heap s a)) (clientId (heap s a)) = Inr s'"
    by (cases "reissue s1 oid ?ty p q (symbol (heap s a)) (clientId (heap s a))")
       (simp_all add: s1_def)
  have un: "orderMap s1 oid = None"
    unfolding s1_def using a(1) by (intro cancel_order_effect(1)) (simp add: get_order_def)
  have ma: "orderMap s' oid = Some a'" using m by simp
  have "no_cross s1"
    unfolding s1_def using m by (intro cancel_order_no_cross reachable_no_cross) simp
  then have ord: "book_ordered s1" by (simp add: no_cross_def)
  note r = reissue_rests_last [OF ord un run ma]
  have n: "nextAddr s1 = nextAddr s" by (simp add: s1_def)
  from r(1) n show "a' = nextAddr s" by simp
  from r(4) show "orderId (heap s' a') = oid" .
  from r(3) show "price (heap s' a') = p" .
  from r(5,6) show "\<exists>v. map_of (if otype (heap s' a') = BUY then buyOrders s' else sellOrders s') p
                   = Some (v @ [a'])" by simp
qed

theorem modify_is_cancel_then_reissue_witness:
  "\<exists>s s'. session (init id) [Submit BUY 100 10 ''DEFAULT'' ''DEFAULT''] = Inr s
       \<and> reachable s \<and> get_order s ''O1'' = Some 0 \<and> status (heap s 0) = PENDING
       \<and> modify_order s ''O1'' 101 10 = Inr (True, s')
       \<and> cancel_then_reissue s ''O1'' 101 10 = Inr (True, s')
       \<and> orderMap s' ''O1'' = Some 1 \<and> nextAddr s = 1 \<and> price (heap s' 1) = 101
       \<and> buyOrders s' = [(101, [1])]
       \<and> get_order s ''O9'' = None \<and> modify_order s ''O9'' 101 10 = Inr (False, s)
       \<and> cancel_order s ''O9'' = (False, s)"
proof -
  obtain s s' where run: "session (init id) [Submit BUY 100 10 ''DEFAULT'' ''DEFAULT''] = Inr s"
    and m: "modify_order s ''O1'' 101 10 = Inr (True, s')"
    and f: "get_order s ''O1'' = Some 0" "status (heap s 0) = PENDING"
      "orderMap s' ''O1'' = Some 1" "nextAddr s = 1" "buyOrders s' = [(101, [1])]"
      "get_order s ''O9'' = None"
    using session_single_buy [of id] modify_single_buy [of id] by (simp add: get_order_def)
  have re: "reachable s" unfolding reachable_def using run by blast
  from modify_is_cancel_then_reissue [of s "''O1''" 101 10 s' 1] f(1,2) m re f(3)
  have 1: "cancel_then_reissue s ''O1'' 101 10 = Inr (True, s')" "price (heap s' 1) = 101"
    by auto
  from modify_is_cancel_then_reissue [of s "''O9''" 101 10] f(6)
  have 2: "modify_order s ''O9'' 101 10 = Inr (False, s)" "cancel_order s ''O9'' = (False, s)"
    by blast+
  from run re m f 1 2 show ?thesis by blast
qed

text \<open>
  The claim as written says that modify leaves the engine in the state of cancel followed
  by submit. A submit takes a new id from the counter: after the modify the order is
  still O1 and the counter is 1; after cancel and submit the order is O2 and the counter
  is 2.
\<close>

theorem modify_differs_from_cancel_submit:
  "session (init id) [Submit BUY 100 10 ''DEFAULT'' ''DEFAULT'', Modify ''O1'' 101 10]
   \<noteq> session (init id) [Submit BUY 100 10 ''DEFAULT'' ''DEFAULT'', Cancel ''O1'',
                          Submit BUY 101 10 ''DEFAULT'' ''DEFAULT'']"
proof
  assume eq: "session (init id) [Submit BUY 100 10 ''DEFAULT'' ''DEFAULT'', Modify ''O1'' 101 10]
   = session (init id) [Submit BUY 100 10 ''DEFAULT'' ''DEFAULT'', Cancel ''O1'',
                          Submit BUY 101 10 ''DEFAULT'' ''DEFAULT'']"
  have "orderCounter (projr (session (init id)
          [Submit BUY 100 10 ''DEFAULT'' ''DEFAULT'', Modify ''O1'' 101 10])) = 1"
    by (simp add: session_modify_pending)
  moreover have "orderCounter (projr (session (init id)
          [Submit BUY 100 10 ''DEFAULT'' ''DEFAULT'', Cancel ''O1'',
           Submit BUY 101 10 ''DEFAULT'' ''DEFAULT''])) = 2"
    by (simp add: session_cancel_resubmit)
  ultimately show False using eq by simp
qed

end
